theory Spec2Isabelle
  imports Main
begin

section \<open>The web UI request handlers of dbhub.io (src/webui/main.go)\<close>

text \<open>
  The handlers of \<^verbatim>\<open>main.go\<close> are glue around the package \<^verbatim>\<open>common\<close> (imported as
  \<^verbatim>\<open>com\<close>), the session library, the SQLite driver and the Go standard library, none
  of which is part of \<^verbatim>\<open>src/\<close>. A handler is embedded as a tree of calls: a node is
  one call that leaves \<^verbatim>\<open>main.go\<close>, with the arguments the source passes, and the
  subtree that the handler runs on each possible answer; a leaf is what the handler has
  written to the response when it returns. The logic between the calls (the checks,
  their order, the values computed) is the source's own and is written out.
\<close>

subsection \<open>Values\<close>

text \<open>
  A Go \<^verbatim>\<open>error\<close> is its message (\<^verbatim>\<open>err.Error()\<close>), \<^verbatim>\<open>nil\<close> is \<open>None\<close>. Byte
  slices are strings. A Go \<^verbatim>\<open>int\<close> is an \<open>int\<close>; the one addition of the handlers
  is \<open>int_add\<close>, with the 64-bit wrap-around written out.
\<close>

type_synonym error = "string option"
type_synonym bytes = string

definition int_add :: "int \<Rightarrow> int \<Rightarrow> int" where
  "int_add a b = (a + b + 2 ^ 63) mod 2 ^ 64 - 2 ^ 63"

text \<open>\<^verbatim>\<open>com.SQLiteRecordSet\<close>: only the field \<^verbatim>\<open>TotalRows\<close> is touched by the handlers.\<close>

record SQLiteRecordSet =
  Records :: "string list list"
  TotalRows :: int

text \<open>The constants and the pure key function of package \<^verbatim>\<open>common\<close> that the handlers use.\<close>

record com =
  TableRowsCacheKey :: "string \<Rightarrow> string \<Rightarrow> string \<Rightarrow> string \<Rightarrow> string \<Rightarrow> int \<Rightarrow> string \<Rightarrow> int \<Rightarrow> string"
  DefaultNumDisplayRows :: int
  CacheTime :: int

subsection \<open>Requests\<close>

text \<open>
  \<^verbatim>\<open>session.Get(r)\<close> gives no session, a session without the attribute
  \<^verbatim>\<open>UserName\<close>, or a session of a logged in user.
\<close>

datatype session = NoSession | SessionNoUser | SessionUser string

text \<open>The multipart file of \<^verbatim>\<open>r.FormFile("database")\<close> with its header.\<close>

record upload_file =
  Filename :: string
  ContentType :: "string list"
  Content :: bytes
  ReadErr :: error

text \<open>
  What the handlers read from \<^verbatim>\<open>*http.Request\<close>: the results of the URL parsers
  \<^verbatim>\<open>com.GetODV\<close>, \<^verbatim>\<open>com.GetOD\<close>, \<^verbatim>\<open>com.GetODTV\<close> and of \<^verbatim>\<open>com.GetPub\<close>, the form
  values, the session and the uploaded file.
\<close>

record request =
  rODV :: "string \<times> string \<times> int \<times> error"
  rOD :: "string \<times> string \<times> error"
  rODTV :: "string \<times> string \<times> string \<times> int \<times> error"
  rSession :: session
  rSort :: string
  rDir :: string
  rOffset :: string
  rParseFormErr :: error
  rPub :: "bool \<times> error"
  rDescrip :: string
  rReadme :: string
  rFile :: "string + upload_file"

subsection \<open>Calls, answers, responses\<close>

datatype call =
    SessionRemove
  | LogPrintf string
  | CheckUserDBVAccess string string string int string
  | HighestDBVersion string string string string
  | MinioBucketID string string int string
  | MinioUserBucket string
  | MinioObjCopy string string string
  | ForkDatabase string string string int string string string
  | InvalidateCacheEntry string string string string int
  | ToggleDBStar string string string string
  | DBStars string string
  | Atoi string
  | ValidateFieldName string
  | PrefUserMaxRows string
  | GetCachedData string
  | OpenMinioObject string string
  | SdbTables string
  | SdbColumns string string
  | ReadSQLiteDB string string int string string int
  | GetSQLiteRowCount string string
  | SdbClose string
  | CacheData string SQLiteRecordSet int
  | JsonMarshalIndent SQLiteRecordSet
  | ValidateDB string
  | FileClose
  | TempFile
  | TempWrite string bytes
  | OsRemove string
  | SanityCheck string
  | Sha256 bytes
  | RandomString nat
  | CheckMinioIDAvail string string
  | StoreMinioObject string string bytes string
  | AddDatabase string string string int bytes int bool string string string string

text \<open>
  What a call returns: each call reads the fields that its Go signature has
  (\<open>aErr\<close> the error, \<open>aOk\<close> a boolean, \<open>aInt\<close> an integer, \<open>aStr\<close> and \<open>aStr2\<close> the
  first and second string, \<open>aStrs\<close> a list of names, \<open>aRows\<close> a record set).
\<close>

record ans =
  aErr :: error
  aOk :: bool
  aInt :: int
  aStr :: string
  aStr2 :: string
  aStrs :: "string list"
  aRows :: SQLiteRecordSet

datatype response =
    ErrorPage nat string
  | Redirect string nat
  | Body string
  | NoResponse
  | Panic
  | OutOfFuel

datatype prog = Return response | Do call "ans \<Rightarrow> prog"

type_synonym trace = "(call \<times> ans) list"

text \<open>Running a handler against the services: \<open>env\<close> answers a call in a world and changes it.\<close>

primrec run :: "(call \<Rightarrow> 'w \<Rightarrow> ans \<times> 'w) \<Rightarrow> prog \<Rightarrow> 'w \<Rightarrow> trace \<times> response \<times> 'w" where
  "run env (Return r) w = ([], r, w)"
| "run env (Do c k) w =
     (let a = fst (env c w); w1 = snd (env c w); res = run env (k a) w1
      in ((c, a) # fst res, snd res))"

text \<open>\<open>always Q p\<close>: every trace and response that \<open>p\<close> can produce, on any answers, satisfies \<open>Q\<close>.\<close>

primrec always :: "(trace \<Rightarrow> response \<Rightarrow> bool) \<Rightarrow> prog \<Rightarrow> bool" where
  "always Q (Return r) = Q [] r"
| "always Q (Do c k) = (\<forall>a. always (\<lambda>t. Q ((c, a) # t)) (k a))"

subsection \<open>The handlers\<close>

text \<open>The HTTP status codes of \<^verbatim>\<open>net/http\<close> that the handlers use.\<close>

definition StatusBadRequest :: nat where "StatusBadRequest = 400"
definition StatusUnauthorized :: nat where "StatusUnauthorized = 401"
definition StatusInternalServerError :: nat where "StatusInternalServerError = 500"
definition StatusTemporaryRedirect :: nat where "StatusTemporaryRedirect = 307"

text \<open>The single quote and the newline of the log messages.\<close>

definition sq :: string where "sq = [CHR 0x27]"
definition nl :: string where "nl = [CHR 0x0A]"

text \<open>\<^verbatim>\<open>errorPage(w, r, status, msg)\<close> followed by \<^verbatim>\<open>return\<close>.\<close>

definition errorPage :: "nat \<Rightarrow> string \<Rightarrow> prog" where
  "errorPage status msg = Return (ErrorPage status msg)"

text \<open>
  The session block that every handler repeats: the logged in user and
  \<^verbatim>\<open>validSession\<close>; a session without a user name is removed.
\<close>

definition getSession :: "request \<Rightarrow> (string \<Rightarrow> bool \<Rightarrow> prog) \<Rightarrow> prog" where
  "getSession r k =
     (case rSession r of
        NoSession \<Rightarrow> k [] False
      | SessionNoUser \<Rightarrow> Do SessionRemove (\<lambda>_. k [] False)
      | SessionUser u \<Rightarrow> k u True)"

text \<open>\<^verbatim>\<open>forkDBHandler\<close> (lines 459-568).\<close>

definition forkDBHandler :: "request \<Rightarrow> prog" where
  "forkDBHandler r =
     (case rODV r of (dbOwner, dbName, dbVer, err) \<Rightarrow>
      if err \<noteq> None then errorPage StatusBadRequest (the err)
      else if dbVer = 0 then errorPage StatusBadRequest ''No database version number given''
      else getSession r (\<lambda>loggedInUser validSession.
      if validSession \<noteq> True
      then errorPage StatusBadRequest ''To fork a database, you need to be logged in''
      else Do (CheckUserDBVAccess dbOwner ''/'' dbName dbVer loggedInUser) (\<lambda>a.
      if aErr a \<noteq> None then errorPage StatusInternalServerError (the (aErr a))
      else if \<not> aOk a
      then errorPage StatusBadRequest ''You don't have access to the requested database version''
      else if loggedInUser = dbOwner
      then errorPage StatusBadRequest ''Forking your own database in-place doesn't make sense''
      else Do (HighestDBVersion loggedInUser dbName ''/'' loggedInUser) (\<lambda>v.
      if aErr v \<noteq> None then errorPage StatusInternalServerError (the (aErr v))
      else if aInt v \<noteq> 0
      then errorPage StatusBadRequest ''You already have a database of this name''
      else Do (MinioBucketID dbOwner dbName dbVer loggedInUser) (\<lambda>src.
      if aErr src \<noteq> None then errorPage StatusInternalServerError (the (aErr src))
      else Do (MinioUserBucket loggedInUser) (\<lambda>dst.
      if aErr dst \<noteq> None then errorPage StatusInternalServerError (the (aErr dst))
      else Do (MinioObjCopy (aStr src) (aStr2 src) (aStr dst)) (\<lambda>cp.
      if aErr cp \<noteq> None then errorPage StatusInternalServerError (the (aErr cp))
      else Do (ForkDatabase dbOwner ''/'' dbName dbVer loggedInUser ''/'' (aStr cp)) (\<lambda>fk.
      if aErr fk \<noteq> None then errorPage StatusInternalServerError (the (aErr fk))
      else Do (InvalidateCacheEntry loggedInUser dbOwner ''/'' dbName 0) (\<lambda>inv.
      if aErr inv \<noteq> None
      then Do (LogPrintf (''Error when invalidating memcache entries: '' @ the (aErr inv) @ nl))
             (\<lambda>_. Return NoResponse)
      else Do (LogPrintf (''Database '' @ sq @ dbOwner @ ''/'' @ dbName @ sq @ '' forked to user ''
                 @ sq @ loggedInUser @ sq @ nl)) (\<lambda>_.
      Return (Redirect (''/'' @ loggedInUser @ ''/'' @ dbName) StatusTemporaryRedirect)))))))))))"

text \<open>\<^verbatim>\<open>%d\<close> of \<^verbatim>\<open>fmt\<close> on an \<^verbatim>\<open>int\<close>: decimal digits, a minus sign when negative.\<close>

fun digits :: "nat \<Rightarrow> string" where
  "digits n = (if n < 10 then [char_of (48 + n)] else digits (n div 10) @ [char_of (48 + n mod 10)])"

definition itoa :: "int \<Rightarrow> string" where
  "itoa i = (if i < 0 then CHR ''-'' # digits (nat (- i)) else digits (nat i))"

text \<open>
  A \<^verbatim>\<open>return\<close> after \<^verbatim>\<open>defer\<close> statements: the deferred calls run, last
  registered first, and the response stands as written.
\<close>

primrec ret :: "call list \<Rightarrow> response \<Rightarrow> prog" where
  "ret [] r = Return r"
| "ret (c # cs) r = Do c (\<lambda>_. ret cs r)"

text \<open>\<^verbatim>\<open>starToggleHandler\<close> (lines 956-1008).\<close>

definition starToggleHandler :: "request \<Rightarrow> prog" where
  "starToggleHandler r =
     (case rOD r of (dbOwner, dbName, err) \<Rightarrow>
      if err \<noteq> None then errorPage StatusBadRequest (the err)
      else getSession r (\<lambda>loggedInUser validSession.
      if validSession \<noteq> True then Return (Body ''-1'')
      else Do (ToggleDBStar loggedInUser dbOwner ''/'' dbName) (\<lambda>tg.
      if aErr tg \<noteq> None then Return (Body ''-1'')
      else Do (InvalidateCacheEntry loggedInUser dbOwner ''/'' dbName 0) (\<lambda>inv.
      if aErr inv \<noteq> None
      then Do (LogPrintf (''Error when invalidating memcache entries: '' @ the (aErr inv) @ nl))
             (\<lambda>_. Return NoResponse)
      else Do (DBStars dbOwner dbName) (\<lambda>st.
      if aErr st \<noteq> None then Return (Body ''-1'')
      else Return (Body (itoa (aInt st))))))))"

text \<open>
  \<^verbatim>\<open>tableViewHandler\<close> (lines 1187-1379), in the order of the source: the key of the
  cached page (lines 1277-1278), the output (lines 1370-1378), the read of the database on
  a cache miss (lines 1287-1367), the access check and the cache lookup (lines 1251-1286),
  and the parsing of the request (lines 1189-1249).
\<close>

definition dataCacheKey ::
  "com \<Rightarrow> string \<Rightarrow> string \<Rightarrow> int \<Rightarrow> string \<Rightarrow> string \<Rightarrow> string \<Rightarrow> int \<Rightarrow> string \<Rightarrow> int \<Rightarrow> string" where
  "dataCacheKey cm sortCol sortDir rowOffset loggedInUser dbOwner dbName dbVersion requestedTable maxRows =
     TableRowsCacheKey cm (''tablejson/'' @ sortCol @ ''/'' @ sortDir @ ''/'' @ itoa rowOffset)
       loggedInUser dbOwner ''/'' dbName dbVersion requestedTable maxRows"

definition tableViewOutput :: "call list \<Rightarrow> SQLiteRecordSet \<Rightarrow> prog" where
  "tableViewOutput deferred dataRows =
     Do (JsonMarshalIndent dataRows) (\<lambda>js.
     if aErr js \<noteq> None
     then Do (LogPrintf (the (aErr js) @ nl)) (\<lambda>_. ret deferred NoResponse)
     else ret deferred (Body (aStr js)))"

definition tableViewRead ::
  "com \<Rightarrow> string \<Rightarrow> string \<Rightarrow> string \<Rightarrow> string \<Rightarrow> string \<Rightarrow> string \<Rightarrow> string \<Rightarrow> int \<Rightarrow> int \<Rightarrow> prog" where
  "tableViewRead cm key bucket ident dbName requestedTable sortCol sortDir rowOffset maxRows =
     Do (OpenMinioObject bucket ident) (\<lambda>opn.
     let sdb = aStr opn in
     Do (SdbTables sdb) (\<lambda>tb.
     let tables = aStrs tb in
     if aErr tb \<noteq> None
     then Do (LogPrintf (''Error retrieving table names: '' @ the (aErr tb))) (\<lambda>_. Return NoResponse)
     else if length tables = 0
     then Do (LogPrintf (''The database '' @ sq @ dbName @ sq
                @ '' doesn't seem to have any tables. Aborting.'')) (\<lambda>_. Return NoResponse)
     else if requestedTable \<noteq> [] \<and> requestedTable \<notin> set tables
     then errorPage StatusBadRequest ''Requested table does not exist''
     else
     let requestedTable = (if requestedTable = [] then hd tables else requestedTable);
         reading = (\<lambda>sortCol.
           Do (ReadSQLiteDB sdb requestedTable maxRows sortCol sortDir rowOffset) (\<lambda>rd.
           if aErr rd \<noteq> None then errorPage StatusBadRequest (the (aErr rd))
           else Do (GetSQLiteRowCount sdb requestedTable) (\<lambda>cnt.
           let dataRows = (aRows rd)\<lparr>TotalRows := aInt cnt\<rparr> in
           if aErr cnt \<noteq> None then errorPage StatusInternalServerError (the (aErr cnt))
           else Do (CacheData key dataRows (CacheTime cm)) (\<lambda>cd.
           if aErr cd \<noteq> None
           then Do (LogPrintf (''Table data handler: Error when caching table data: ''
                      @ the (aErr cd) @ nl)) (\<lambda>_. tableViewOutput [SdbClose sdb] dataRows)
           else tableViewOutput [SdbClose sdb] dataRows))))
     in
     if sortCol \<noteq> []
     then Do (SdbColumns sdb requestedTable) (\<lambda>cols.
          if aErr cols \<noteq> None
          then Do (LogPrintf (''Error when reading column names for table '' @ sq @ requestedTable
                     @ sq @ '': '' @ the (aErr cols) @ nl)) (\<lambda>_.
               errorPage StatusInternalServerError ''Error when reading from the database'')
          else reading (if sortCol \<in> set (aStrs cols) then sortCol else []))
     else reading sortCol))"

definition tableViewData ::
  "com \<Rightarrow> string \<Rightarrow> string \<Rightarrow> string \<Rightarrow> int \<Rightarrow> string \<Rightarrow> string \<Rightarrow> int \<Rightarrow> string \<Rightarrow> prog" where
  "tableViewData cm dbOwner dbName requestedTable dbVersion sortCol sortDir rowOffset loggedInUser =
     Do (MinioBucketID dbOwner dbName dbVersion loggedInUser) (\<lambda>mb.
     let bucket = aStr mb; ident = aStr2 mb in
     if aErr mb \<noteq> None then errorPage StatusInternalServerError (the (aErr mb))
     else if ident = []
     then Do (LogPrintf (''Table data handler: Requested database not found. Owner: '' @ sq
                @ dbOwner @ sq @ '' Database: '' @ sq @ dbName @ sq)) (\<lambda>_. Return NoResponse)
     else
     let lookup = (\<lambda>maxRows.
           let key = dataCacheKey cm sortCol sortDir rowOffset loggedInUser dbOwner dbName
                       dbVersion requestedTable maxRows in
           Do (GetCachedData key) (\<lambda>gc.
           let after = (if \<not> aOk gc
                        then tableViewRead cm key bucket ident dbName requestedTable sortCol
                               sortDir rowOffset maxRows
                        else tableViewOutput [] (aRows gc)) in
           if aErr gc \<noteq> None
           then Do (LogPrintf (''Table data handler: Error retrieving table data from cache: ''
                      @ the (aErr gc) @ nl)) (\<lambda>_. after)
           else after))
     in
     if loggedInUser \<noteq> []
     then Do (PrefUserMaxRows loggedInUser) (\<lambda>pr. lookup (aInt pr))
     else lookup (DefaultNumDisplayRows cm))"

definition tableViewHandler :: "com \<Rightarrow> request \<Rightarrow> prog" where
  "tableViewHandler cm r =
     (case rODTV r of (dbOwner, dbName, requestedTable, dbVersion, err) \<Rightarrow>
      if err \<noteq> None then errorPage StatusBadRequest (the err)
      else
      let sortCol = rSort r; sortDir = rDir r; offsetStr = rOffset r;
          checked = (\<lambda>rowOffset.
            if sortDir \<noteq> [] \<and> sortDir \<noteq> ''ASC'' \<and> sortDir \<noteq> ''DESC''
            then errorPage StatusBadRequest ''Invalid sort direction''
            else getSession r (\<lambda>loggedInUser validSession.
                 tableViewData cm dbOwner dbName requestedTable dbVersion sortCol sortDir
                   rowOffset loggedInUser));
          sorting = (\<lambda>rowOffset.
            if sortCol \<noteq> []
            then Do (ValidateFieldName sortCol) (\<lambda>vf.
                 if aErr vf \<noteq> None
                 then Do (LogPrintf (''Validation failed on requested sort field name '' @ sq
                            @ sortCol @ sq @ '': '' @ the (aErr vf) @ nl)) (\<lambda>_.
                      errorPage StatusBadRequest ''Validation failed on requested sort field name'')
                 else checked rowOffset)
            else checked rowOffset)
      in
      if offsetStr = [] then sorting 0
      else Do (Atoi offsetStr) (\<lambda>at.
           if aErr at \<noteq> None then errorPage StatusBadRequest (the (aErr at))
           else sorting (if aInt at < 0 then 0 else aInt at)))"

text \<open>
  \<^verbatim>\<open>uploadDataHandler\<close> (lines 1407-1577). The loop of lines 1539-1547 draws random
  names until one is free; it runs on fuel, and the handler that exhausts it has not
  returned (\<open>OutOfFuel\<close>). \<open>uploadStore\<close> is lines 1549-1576, \<open>uploadDataHandler\<close> lines
  1409-1535.
\<close>

fun genMinioID :: "nat \<Rightarrow> string \<Rightarrow> call list \<Rightarrow> (string \<Rightarrow> prog) \<Rightarrow> prog" where
  "genMinioID 0 loggedInUser deferred k = Return OutOfFuel"
| "genMinioID (Suc n) loggedInUser deferred k =
     Do (RandomString 8) (\<lambda>rs.
     let minioID = aStr rs @ ''.db'' in
     Do (CheckMinioIDAvail loggedInUser minioID) (\<lambda>av.
     if aErr av \<noteq> None
     then ret deferred (ErrorPage StatusInternalServerError ''Database query failure'')
     else if aOk av then k minioID
     else genMinioID n loggedInUser deferred k))"

definition uploadStore ::
  "call list \<Rightarrow> string \<Rightarrow> string \<Rightarrow> string \<Rightarrow> int \<Rightarrow> bytes \<Rightarrow> bool \<Rightarrow> string \<Rightarrow> string \<Rightarrow> string
     \<Rightarrow> upload_file \<Rightarrow> string \<Rightarrow> prog" where
  "uploadStore deferred loggedInUser folder dbName newVer shaSum public descrip readme bucket handler minioID =
     (case ContentType handler of
        [] \<Rightarrow> ret deferred Panic
      | contentType # _ \<Rightarrow>
     Do (StoreMinioObject bucket minioID (Content handler) contentType) (\<lambda>st.
     let dbSize = aInt st in
     if aErr st \<noteq> None
     then ret deferred (ErrorPage StatusInternalServerError ''Storing database file failed'')
     else Do (AddDatabase loggedInUser folder dbName newVer shaSum dbSize public bucket minioID
                descrip readme) (\<lambda>ad.
     if aErr ad \<noteq> None
     then ret deferred (ErrorPage StatusInternalServerError
                          ''Adding database details to PostgreSQL failed'')
     else Do (LogPrintf (''Upload DB handler: Username: '' @ loggedInUser @ '', database '' @ sq
                @ dbName @ sq @ '' uploaded as '' @ sq @ minioID @ sq @ '', bytes: ''
                @ itoa dbSize @ nl)) (\<lambda>_.
     Do (InvalidateCacheEntry loggedInUser loggedInUser folder dbName 0) (\<lambda>inv.
     if aErr inv \<noteq> None
     then Do (LogPrintf (''Error when invalidating memcache entries: '' @ the (aErr inv) @ nl))
            (\<lambda>_. ret deferred NoResponse)
     else ret deferred (Redirect (''/'' @ loggedInUser @ ''/'' @ dbName)
                          StatusTemporaryRedirect))))))"

definition uploadDataHandler :: "nat \<Rightarrow> request \<Rightarrow> prog" where
  "uploadDataHandler fuel r =
     getSession r (\<lambda>loggedInUser validSession.
     if validSession \<noteq> True then errorPage StatusUnauthorized ''You need to be logged in''
     else if rParseFormErr r \<noteq> None
     then Do (LogPrintf (''Upload DB handler: ParseForm() error: '' @ the (rParseFormErr r) @ nl))
            (\<lambda>_. errorPage StatusInternalServerError (the (rParseFormErr r)))
     else case rPub r of (public, err) \<Rightarrow>
     if err \<noteq> None
     then Do (LogPrintf (''Upload DB handler: Error when converting public value to boolean: ''
                @ the err @ nl)) (\<lambda>_. errorPage StatusBadRequest ''Public value incorrect'')
     else
     let descrip = rDescrip r; readme = rReadme r in
     if length descrip > 80
     then errorPage StatusBadRequest ''Description line needs to be 80 characters or less''
     else
     let folder = ''/'' in
     case rFile r of
       Inl err \<Rightarrow>
         Do (LogPrintf (''Upload DB handler: Uploading file failed: '' @ err @ nl)) (\<lambda>_.
         errorPage StatusInternalServerError ''Database file missing from upload data?'')
     | Inr handler \<Rightarrow>
     let dbName = Filename handler in
     Do (ValidateDB dbName) (\<lambda>vd.
     if aErr vd \<noteq> None
     then Do (LogPrintf (''Upload DB handler: Validation failed for database name: ''
                @ the (aErr vd))) (\<lambda>_.
          ret [FileClose] (ErrorPage StatusBadRequest ''Invalid database name''))
     else
     let tempBuf = Content handler; bytesWritten = int (length tempBuf) in
     if ReadErr handler \<noteq> None
     then Do (LogPrintf (''Upload DB handler: Error: '' @ the (ReadErr handler) @ nl)) (\<lambda>_.
          ret [FileClose] (ErrorPage StatusInternalServerError ''Internal error''))
     else if bytesWritten = 0
     then Do (LogPrintf (''Upload DB handler: Database seems to be 0 bytes in length. Username: ''
                @ loggedInUser @ '', Database: '' @ dbName @ nl)) (\<lambda>_.
          ret [FileClose] (ErrorPage StatusBadRequest ''Database file is 0 length?''))
     else Do TempFile (\<lambda>tf.
     if aErr tf \<noteq> None then ret [FileClose] Panic
     else
     let tempDBName = aStr tf in
     Do (TempWrite tempDBName tempBuf) (\<lambda>tw.
     if aErr tw \<noteq> None
     then Do (LogPrintf (''Upload DB handler: Error when writing the uploaded db to a temp file. User: ''
                @ loggedInUser @ '', Database: '' @ dbName @ ''Error: '' @ the (aErr tw) @ nl)) (\<lambda>_.
          ret [FileClose] (ErrorPage StatusInternalServerError ''Internal error''))
     else
     let deferred = [OsRemove tempDBName, FileClose] in
     Do (SanityCheck tempDBName) (\<lambda>sc.
     if aErr sc \<noteq> None then ret deferred (ErrorPage StatusInternalServerError (the (aErr sc)))
     else Do (Sha256 tempBuf) (\<lambda>sha.
     let shaSum = aStr sha in
     Do (HighestDBVersion loggedInUser dbName ''/'' loggedInUser) (\<lambda>hv.
     let highVer = aInt hv;
         newVer = (if highVer > 0 then int_add highVer 1 else 1) in
     Do (MinioUserBucket loggedInUser) (\<lambda>mb.
     let bucket = aStr mb in
     if aErr mb \<noteq> None
     then ret deferred (ErrorPage StatusInternalServerError ''Database query failure'')
     else genMinioID fuel loggedInUser deferred
            (uploadStore deferred loggedInUser folder dbName newVer shaSum public descrip readme
               bucket handler)))))))))"

subsection \<open>Reading traces\<close>

text \<open>The world after a trace, and whether the answers of a trace are the ones \<open>env\<close> gives.\<close>

fun replay :: "(call \<Rightarrow> 'w \<Rightarrow> ans \<times> 'w) \<Rightarrow> 'w \<Rightarrow> trace \<Rightarrow> 'w" where
  "replay env w [] = w"
| "replay env w ((c, a) # t) = replay env (snd (env c w)) t"

fun consistent :: "(call \<Rightarrow> 'w \<Rightarrow> ans \<times> 'w) \<Rightarrow> 'w \<Rightarrow> trace \<Rightarrow> bool" where
  "consistent env w [] = True"
| "consistent env w ((c, a) # t) = (a = fst (env c w) \<and> consistent env (snd (env c w)) t)"

definition calls :: "trace \<Rightarrow> call list" where
  "calls t = map fst t"

text \<open>
  The calls that write to the blob store or to the table of versions: storing or copying
  an object, adding or forking a database.
\<close>

definition mutates :: "call \<Rightarrow> bool" where
  "mutates c =
     (case c of
        StoreMinioObject b i d ct \<Rightarrow> True
      | MinioObjCopy sb si db \<Rightarrow> True
      | AddDatabase u f n v sha sz p b i d rm \<Rightarrow> True
      | ForkDatabase so sf n v du df i \<Rightarrow> True
      | _ \<Rightarrow> False)"

text \<open>The calls that compute the digest of an upload or look up the version to give it.\<close>

definition digestOrVersion :: "call \<Rightarrow> bool" where
  "digestOrVersion c =
     (case c of Sha256 b \<Rightarrow> True | HighestDBVersion ow n f u \<Rightarrow> True | _ \<Rightarrow> False)"

text \<open>A response that is an error page with a 4xx status.\<close>

fun clientError :: "response \<Rightarrow> bool" where
  "clientError (ErrorPage status msg) = (400 \<le> status \<and> status < 500)"
| "clientError r = False"

text \<open>A response that is an error page.\<close>

fun isErrorPage :: "response \<Rightarrow> bool" where
  "isErrorPage (ErrorPage status msg) = True"
| "isErrorPage r = False"

text \<open>
  Whether the access check of a trace (\<^verbatim>\<open>com.CheckUserDBVAccess\<close>) answered that the
  user is allowed, and whether no version lookup of a trace returned an error.
\<close>

fun accessGranted :: "trace \<Rightarrow> bool" where
  "accessGranted [] = False"
| "accessGranted ((c, a) # t) =
     (case c of CheckUserDBVAccess ow f n v u \<Rightarrow> aErr a = None \<and> aOk a | _ \<Rightarrow> accessGranted t)"

fun noLookupError :: "trace \<Rightarrow> bool" where
  "noLookupError [] = True"
| "noLookupError ((c, a) # t) =
     ((case c of HighestDBVersion ow n f u \<Rightarrow> aErr a = None | _ \<Rightarrow> True) \<and> noLookupError t)"

text \<open>An identity is (owner, folder, name).\<close>

type_synonym ident = "string \<times> string \<times> string"

text \<open>The versions that a trace recorded (\<^verbatim>\<open>com.AddDatabase\<close> without error).\<close>

fun addedVers :: "trace \<Rightarrow> (ident \<times> int) list" where
  "addedVers [] = []"
| "addedVers ((c, a) # t) =
     (case c of
        AddDatabase u f n v sha sz p b i d rm \<Rightarrow> (if aErr a = None then [((u, f, n), v)] else [])
      | _ \<Rightarrow> []) @ addedVers t"

text \<open>
  The first version lookup of a trace, if no call has recorded or forked a version
  before it.
\<close>

fun firstLookup :: "trace \<Rightarrow> (ident \<times> ans) option" where
  "firstLookup [] = None"
| "firstLookup ((c, a) # t) =
     (case c of
        HighestDBVersion ow n f u \<Rightarrow> Some ((ow, f, n), a)
      | AddDatabase u f n v sha sz p b i d rm \<Rightarrow> None
      | ForkDatabase so sf n v du df i \<Rightarrow> None
      | _ \<Rightarrow> firstLookup t)"

text \<open>The versions that a trace asked to record, whatever the answer.\<close>

fun requestedVers :: "trace \<Rightarrow> (ident \<times> int) list" where
  "requestedVers [] = []"
| "requestedVers ((c, a) # t) =
     (case c of AddDatabase u f n v sha sz p b i d rm \<Rightarrow> [((u, f, n), v)] | _ \<Rightarrow> [])
     @ requestedVers t"

text \<open>
  \<open>allocFromRead s t\<close>: every version that \<open>t\<close> asks to record was computed from the
  answer of the last lookup for the same identity (\<open>s\<close> holds that answer), as lines
  1521-1528 compute it, no second version is recorded on one lookup, and no database
  is forked.
\<close>

fun allocFromRead :: "(ident \<times> int) option \<Rightarrow> trace \<Rightarrow> bool" where
  "allocFromRead s [] = True"
| "allocFromRead s ((c, a) # t) =
     (case c of
        HighestDBVersion ow n f u \<Rightarrow> allocFromRead (Some ((ow, f, n), aInt a)) t
      | AddDatabase u f n v sha sz p b i d rm \<Rightarrow>
          (case s of
             None \<Rightarrow> False
           | Some (idn, h) \<Rightarrow> idn = (u, f, n) \<and> v = (if 0 < h then int_add h 1 else 1))
          \<and> allocFromRead None t
      | ForkDatabase so sf n v du df i \<Rightarrow> False
      | _ \<Rightarrow> allocFromRead s t)"

text \<open>
  The invalidation that a successful mutation calls for: the viewer and the identity
  that the handlers pass, with version 0.
\<close>

definition dueInvalidation :: "call \<Rightarrow> ans \<Rightarrow> call option" where
  "dueInvalidation c a =
     (if aErr a \<noteq> None then None
      else case c of
        AddDatabase u f n v sha sz p b i d rm \<Rightarrow> Some (InvalidateCacheEntry u u f n 0)
      | ForkDatabase so sf n v du df i \<Rightarrow> Some (InvalidateCacheEntry du so sf n 0)
      | ToggleDBStar u ow f n \<Rightarrow> Some (InvalidateCacheEntry u ow f n 0)
      | _ \<Rightarrow> None)"

text \<open>
  \<open>invalidatedAfter due t\<close>: after every successful mutation of \<open>t\<close>, the next call
  that is not a log line is the invalidation due (\<open>due\<close> holds it while it is awaited).
\<close>

fun invalidatedAfter :: "call option \<Rightarrow> trace \<Rightarrow> bool" where
  "invalidatedAfter due [] = (due = None)"
| "invalidatedAfter due ((c, a) # t) =
     (case c of
        LogPrintf m \<Rightarrow> invalidatedAfter due t
      | _ \<Rightarrow> (case due of
                Some e \<Rightarrow> c = e \<and> invalidatedAfter None t
              | None \<Rightarrow> invalidatedAfter (dueInvalidation c a) t))"

text \<open>
  \<open>lookupsGuarded q ok t\<close>: no \<^verbatim>\<open>com.GetCachedData\<close> in \<open>t\<close> unless the last
  \<^verbatim>\<open>com.MinioBucketID\<close> before it was the access check \<open>q\<close> (owner, name, version,
  viewer) and returned an object without error (\<open>ok\<close> holds that).
\<close>

fun lookupsGuarded :: "string \<times> string \<times> int \<times> string \<Rightarrow> bool \<Rightarrow> trace \<Rightarrow> bool" where
  "lookupsGuarded q ok [] = True"
| "lookupsGuarded q ok ((c, a) # t) =
     (case c of
        MinioBucketID ow n v u \<Rightarrow>
          lookupsGuarded q (q = (ow, n, v, u) \<and> aErr a = None \<and> aStr2 a \<noteq> []) t
      | GetCachedData key \<Rightarrow> ok \<and> lookupsGuarded q ok t
      | _ \<Rightarrow> lookupsGuarded q ok t)"

text \<open>
  \<open>served d t r\<close>: the rest of a table view from line 1370 on: \<open>d\<close> is marshalled, and
  the response is the JSON text when that succeeds.
\<close>

fun served :: "SQLiteRecordSet \<Rightarrow> trace \<Rightarrow> response \<Rightarrow> bool" where
  "served d ((JsonMarshalIndent d', js) # t) r = (d' = d \<and> (aErr js = None \<longrightarrow> r = Body (aStr js)))"
| "served d t r = False"

text \<open>
  \<open>cacheWriteTolerated t r\<close>: after \<^verbatim>\<open>com.CacheData\<close>, failed or not, the view that was
  to be cached is served; a failure is logged first.
\<close>

fun cacheWriteTolerated :: "trace \<Rightarrow> response \<Rightarrow> bool" where
  "cacheWriteTolerated [] r = True"
| "cacheWriteTolerated ((c, a) # t) r =
     (case c of
        CacheData key d ttl \<Rightarrow>
          (if aErr a = None then served d t r
           else case t of (LogPrintf m, l) # t' \<Rightarrow> served d t' r | _ \<Rightarrow> False)
      | _ \<Rightarrow> cacheWriteTolerated t r)"

text \<open>
  \<open>invalidationTolerated t r\<close>: after a failed \<^verbatim>\<open>com.InvalidateCacheEntry\<close> the
  failure is logged, no call writes to the stores any more, and the handler returns
  without having written a response.
\<close>

fun invalidationTolerated :: "trace \<Rightarrow> response \<Rightarrow> bool" where
  "invalidationTolerated [] r = True"
| "invalidationTolerated ((c, a) # t) r =
     (case c of
        InvalidateCacheEntry u ow f n v \<Rightarrow>
          (if aErr a = None then invalidationTolerated t r
           else (case t of (LogPrintf m, l) # t' \<Rightarrow> True | _ \<Rightarrow> False)
                \<and> list_all (\<lambda>c. \<not> mutates c) (calls t) \<and> r = NoResponse)
      | _ \<Rightarrow> invalidationTolerated t r)"

subsection \<open>Uploads one after another, and uploads that overlap\<close>

text \<open>Handlers that run one after another: each starts in the world the last one left.\<close>

fun serial :: "(call \<Rightarrow> 'w \<Rightarrow> ans \<times> 'w) \<Rightarrow> prog list \<Rightarrow> 'w \<Rightarrow> trace \<times> response list \<times> 'w" where
  "serial env [] w = ([], [], w)"
| "serial env (p # ps) w =
     (let res = run env p w; rest = serial env ps (snd (snd res))
      in (fst res @ fst rest, fst (snd res) # fst (snd rest), snd (snd rest)))"

text \<open>
  Handlers that run at the same time, one goroutine each: the schedule names the handler
  that makes its next call; a handler that has returned makes none.
\<close>

definition step ::
  "(call \<Rightarrow> 'w \<Rightarrow> ans \<times> 'w) \<Rightarrow> nat \<Rightarrow> prog list \<Rightarrow> 'w \<Rightarrow> trace \<times> prog list \<times> 'w" where
  "step env i ps w =
     (if i < length ps
      then (case ps ! i of
              Return r \<Rightarrow> ([], ps, w)
            | Do c k \<Rightarrow> (let a = fst (env c w) in ([(c, a)], ps[i := k a], snd (env c w))))
      else ([], ps, w))"

fun interleave ::
  "(call \<Rightarrow> 'w \<Rightarrow> ans \<times> 'w) \<Rightarrow> nat list \<Rightarrow> prog list \<Rightarrow> 'w \<Rightarrow> trace \<times> prog list \<times> 'w" where
  "interleave env [] ps w = ([], ps, w)"
| "interleave env (i # sched) ps w =
     (let made = step env i ps w; rest = interleave env sched (fst (snd made)) (snd (snd made))
      in (fst made @ fst rest, snd rest))"

text \<open>What a handler has answered when it has returned.\<close>

fun returned :: "prog \<Rightarrow> response option" where
  "returned (Return r) = Some r"
| "returned (Do c k) = None"

text \<open>
  \<open>versionStore env hi\<close>: the services keep the versions of the identities, and \<open>hi\<close>
  reads the highest version of an identity off the world (0 when it has none):
  it is never negative, \<^verbatim>\<open>com.HighestDBVersion\<close> returns it and changes nothing, a successful
  \<^verbatim>\<open>com.AddDatabase\<close> of version \<open>v\<close> raises it to \<open>v\<close> if it was lower, and no
  other call but \<^verbatim>\<open>com.ForkDatabase\<close> changes it.
\<close>

definition versionStore :: "(call \<Rightarrow> 'w \<Rightarrow> ans \<times> 'w) \<Rightarrow> ('w \<Rightarrow> ident \<Rightarrow> int) \<Rightarrow> bool" where
  "versionStore env hi =
     (\<forall>c w. (\<forall>idn. 0 \<le> hi w idn) \<and> (case c of
        HighestDBVersion ow n f u \<Rightarrow>
          aInt (fst (env c w)) = hi w (ow, f, n) \<and> hi (snd (env c w)) = hi w
      | AddDatabase u f n v sha sz p b i d rm \<Rightarrow>
          hi (snd (env c w)) =
            (if aErr (fst (env c w)) = None then (hi w)((u, f, n) := max (hi w (u, f, n)) v)
             else hi w)
      | ForkDatabase so sf n v du df i \<Rightarrow> True
      | _ \<Rightarrow> hi (snd (env c w)) = hi w))"

text \<open>
  \<open>consecutiveFrom m xs\<close>: each version of \<open>xs\<close>, in order, is one more than the
  highest version that its identity had before it (\<open>m\<close> at the start).
\<close>

fun consecutiveFrom :: "(ident \<Rightarrow> int) \<Rightarrow> (ident \<times> int) list \<Rightarrow> bool" where
  "consecutiveFrom m [] = True"
| "consecutiveFrom m ((idn, v) # xs) = (v = m idn + 1 \<and> consecutiveFrom (m(idn := v)) xs)"

text \<open>The versions that a trace recorded for one identity, in order.\<close>

definition versionsAssigned :: "ident \<Rightarrow> trace \<Rightarrow> int list" where
  "versionsAssigned idn t = map snd (filter (\<lambda>x. fst x = idn) (addedVers t))"

subsection \<open>The parts of package common that the claims are about\<close>

text \<open>
  Modelled from the spec: the Access Guard \<^verbatim>\<open>canRead\<close> (section 4.4); the source calls
  it as \<^verbatim>\<open>com.CheckUserDBVAccess\<close>, which is not in \<^verbatim>\<open>src/\<close>. \<open>public\<close> is the
  AccessPolicy flag of an identity; the anonymous viewer is the empty user name, as
  \<^verbatim>\<open>loggedInUser\<close> is in the handlers when nobody is logged in.
\<close>

definition canRead :: "(ident \<Rightarrow> bool) \<Rightarrow> string \<Rightarrow> string \<Rightarrow> string \<Rightarrow> string \<Rightarrow> int \<Rightarrow> bool" where
  "canRead public viewer owner folder name version =
     (if viewer = owner then True else public (owner, folder, name))"

text \<open>
  Modelled from the spec: the fingerprint of the Result Cache (section 4.5), built "by
  concatenating all fields with unambiguous separators"; the source calls it as
  \<^verbatim>\<open>com.TableRowsCacheKey\<close>, which is not in \<^verbatim>\<open>src/\<close>. Each string field is
  written as its length, a colon and the text, each number as its digits and a colon.
\<close>

definition field :: "string \<Rightarrow> string" where
  "field s = digits (length s) @ CHR '':'' # s"

definition specKey :: "string \<Rightarrow> string \<Rightarrow> string \<Rightarrow> string \<Rightarrow> string \<Rightarrow> int \<Rightarrow> string \<Rightarrow> int \<Rightarrow> string" where
  "specKey prefix loggedInUser dbOwner dbFolder dbName dbVersion dbTable rows =
     field prefix @ field loggedInUser @ field dbOwner @ field dbFolder @ field dbName
     @ field (itoa dbVersion) @ field dbTable @ field (itoa rows)"

text \<open>What the claim asks of a key function: different arguments, different fingerprints.\<close>

definition collisionFree ::
  "(string \<Rightarrow> string \<Rightarrow> string \<Rightarrow> string \<Rightarrow> string \<Rightarrow> int \<Rightarrow> string \<Rightarrow> int \<Rightarrow> string) \<Rightarrow> bool" where
  "collisionFree key =
     (\<forall>p u ow f n v tb m p' u' ow' f' n' v' tb' m'.
        key p u ow f n v tb m = key p' u' ow' f' n' v' tb' m'
        \<longrightarrow> p = p' \<and> u = u' \<and> ow = ow' \<and> f = f' \<and> n = n' \<and> v = v' \<and> tb = tb' \<and> m = m')"

subsection \<open>An in-memory model of the services\<close>

text \<open>
  The rows of the Blob Locator Table with the metadata that \<^verbatim>\<open>com.AddDatabase\<close>
  receives, the objects of the blob store, the cache, the stars, the log, and the names
  that \<^verbatim>\<open>com.RandomString\<close> will draw. \<open>wCacheUp\<close> is whether the cache service
  answers.
\<close>

record dbinfo =
  dOwner :: string
  dFolder :: string
  dName :: string
  dVersion :: int
  dSha :: bytes
  dSize :: int
  dBucket :: string
  dMinioID :: string
  dDescrip :: string
  dReadme :: string

record world =
  wDBs :: "dbinfo list"
  wPublic :: "ident list"
  wBlobs :: "((string \<times> string) \<times> bytes) list"
  wCache :: "(string \<times> SQLiteRecordSet) list"
  wStars :: "(string \<times> ident) list"
  wRandom :: "string list"
  wLog :: "string list"
  wCacheUp :: bool

text \<open>The public flag of an identity in a world.\<close>

definition publicIn :: "world \<Rightarrow> ident \<Rightarrow> bool" where
  "publicIn w idn = (idn \<in> set (wPublic w))"

definition noAns :: ans where
  "noAns = \<lparr>aErr = None, aOk = False, aInt = 0, aStr = [], aStr2 = [], aStrs = [],
            aRows = \<lparr>Records = [], TotalRows = 0\<rparr>\<rparr>"

definition failed :: "string \<Rightarrow> ans" where
  "failed msg = noAns\<lparr>aErr := Some msg\<rparr>"

definition versionsOf :: "dbinfo list \<Rightarrow> ident \<Rightarrow> int list" where
  "versionsOf dbs idn =
     map dVersion (filter (\<lambda>d. (dOwner d, dFolder d, dName d) = idn) dbs)"

text \<open>
  Modelled from the spec: the Version Allocator's "highest existing version for
  identity, or 0 if identity does not yet exist" (section 4.2); \<^verbatim>\<open>com.HighestDBVersion\<close>
  is not in \<^verbatim>\<open>src/\<close>.
\<close>

definition highestVersion :: "dbinfo list \<Rightarrow> ident \<Rightarrow> int" where
  "highestVersion dbs idn = foldr max (versionsOf dbs idn) 0"

definition findDB :: "dbinfo list \<Rightarrow> ident \<Rightarrow> int \<Rightarrow> dbinfo option" where
  "findDB dbs idn v =
     find (\<lambda>d. (dOwner d, dFolder d, dName d) = idn \<and> dVersion d = v) dbs"

text \<open>
  Modelled from the spec: \<^verbatim>\<open>put\<close> of the Blob Locator Table (section 4.3), which
  "fails with DuplicateVersion if (owner, folder, name, version) already exists";
  \<^verbatim>\<open>com.AddDatabase\<close> is not in \<^verbatim>\<open>src/\<close>. The public flag of the upload becomes the
  flag of the identity.
\<close>

definition putDB :: "dbinfo \<Rightarrow> bool \<Rightarrow> world \<Rightarrow> ans \<times> world" where
  "putDB d public w =
     (let idn = (dOwner d, dFolder d, dName d) in
      if findDB (wDBs w) idn (dVersion d) \<noteq> None then (failed ''DuplicateVersion'', w)
      else (noAns, w\<lparr>wDBs := wDBs w @ [d],
                      wPublic := (if public then idn # wPublic w
                                  else removeAll idn (wPublic w))\<rparr>))"

text \<open>The bucket of a user ("one bucket per owner", section 6).\<close>

definition userBucket :: "string \<Rightarrow> string" where
  "userBucket u = ''bucket-'' @ u"

text \<open>\<^verbatim>\<open>strconv.Atoi\<close> on the decimal strings: an optional sign and digits.\<close>

definition isDigit :: "char \<Rightarrow> bool" where
  "isDigit c = (48 \<le> (of_char c :: nat) \<and> (of_char c :: nat) \<le> 57)"

definition natOfDigits :: "string \<Rightarrow> nat" where
  "natOfDigits s = foldl (\<lambda>n c. 10 * n + (of_char c - 48)) 0 s"

definition atoi :: "string \<Rightarrow> ans" where
  "atoi s =
     (let body = (if s \<noteq> [] \<and> (hd s = CHR ''-'' \<or> hd s = CHR ''+'') then tl s else s) in
      if body = [] \<or> \<not> list_all isDigit body
      then failed (''strconv.Atoi: parsing '' @ s @ '': invalid syntax'')
      else noAns\<lparr>aInt := (if hd s = CHR ''-'' then - int (natOfDigits body)
                           else int (natOfDigits body))\<rparr>)"

text \<open>
  Modelled from the spec: the services that package \<^verbatim>\<open>common\<close> reaches (metadata store,
  blob store, cache service; sections 4 and 6), none of which is in \<^verbatim>\<open>src/\<close>. The access
  check, the version lookup and the record of a version are the definitions above; a
  fork records version \<^verbatim>\<open>nextVersion\<close> of the destination identity (section 4.3); an
  invalidation drops every entry of the cache, those of the identity among them; the
  SQLite driver, the temporary files and the validators of names answer without error.
\<close>

fun services :: "call \<Rightarrow> world \<Rightarrow> ans \<times> world" where
  "services SessionRemove w = (noAns, w)"
| "services (LogPrintf m) w = (noAns, w\<lparr>wLog := wLog w @ [m]\<rparr>)"
| "services (CheckUserDBVAccess ow f n v u) w =
     (noAns\<lparr>aOk := canRead (publicIn w) u ow f n v\<rparr>, w)"
| "services (HighestDBVersion ow n f u) w =
     (noAns\<lparr>aInt := highestVersion (wDBs w) (ow, f, n)\<rparr>, w)"
| "services (MinioBucketID ow n v u) w =
     (case findDB (wDBs w) (ow, ''/'', n) v of
        None \<Rightarrow> (noAns, w)
      | Some d \<Rightarrow>
          if canRead (publicIn w) u ow ''/'' n v
          then (noAns\<lparr>aStr := dBucket d, aStr2 := dMinioID d\<rparr>, w)
          else (noAns, w))"
| "services (MinioUserBucket u) w = (noAns\<lparr>aStr := userBucket u\<rparr>, w)"
| "services (MinioObjCopy sb si db) w =
     (case (map_of (wBlobs w) (sb, si), wRandom w) of
        (Some content, x # xs) \<Rightarrow>
          (noAns\<lparr>aStr := x @ ''.db''\<rparr>,
           w\<lparr>wBlobs := wBlobs w @ [((db, x @ ''.db''), content)], wRandom := xs\<rparr>)
      | _ \<Rightarrow> (failed ''copy failed'', w))"
| "services (ForkDatabase so sf n v du df i) w =
     (case findDB (wDBs w) (so, sf, n) v of
        None \<Rightarrow> (failed ''NotFound'', w)
      | Some d \<Rightarrow>
          putDB (d\<lparr>dOwner := du, dFolder := df,
                   dVersion := highestVersion (wDBs w) (du, df, n) + 1,
                   dBucket := userBucket du, dMinioID := i\<rparr>)
            ((so, sf, n) \<in> set (wPublic w)) w)"
| "services (InvalidateCacheEntry u ow f n v) w =
     (if wCacheUp w then (noAns, w\<lparr>wCache := []\<rparr>) else (failed ''memcache: connection refused'', w))"
| "services (ToggleDBStar u ow f n) w =
     (noAns, w\<lparr>wStars := (if (u, ow, f, n) \<in> set (wStars w) then removeAll (u, ow, f, n) (wStars w)
                            else (u, ow, f, n) # wStars w)\<rparr>)"
| "services (DBStars ow n) w =
     (noAns\<lparr>aInt := int (length (filter (\<lambda>s. snd s = (ow, ''/'', n)) (wStars w)))\<rparr>, w)"
| "services (Atoi s) w = (atoi s, w)"
| "services (ValidateFieldName s) w = (noAns, w)"
| "services (PrefUserMaxRows u) w = (noAns\<lparr>aInt := 25\<rparr>, w)"
| "services (GetCachedData key) w =
     (if wCacheUp w
      then (case map_of (wCache w) key of
              None \<Rightarrow> (noAns, w)
            | Some d \<Rightarrow> (noAns\<lparr>aOk := True, aRows := d\<rparr>, w))
      else (failed ''memcache: connection refused'', w))"
| "services (OpenMinioObject b i) w = (noAns\<lparr>aStr := i\<rparr>, w)"
| "services (SdbTables sdb) w = (noAns\<lparr>aStrs := [''t'']\<rparr>, w)"
| "services (SdbColumns sdb tb) w = (noAns\<lparr>aStrs := [''id'', ''val'']\<rparr>, w)"
| "services (ReadSQLiteDB sdb tb maxRows sortCol sortDir rowOffset) w =
     (noAns\<lparr>aRows := \<lparr>Records = [ [''1'', ''one''] ], TotalRows = 0\<rparr>\<rparr>, w)"
| "services (GetSQLiteRowCount sdb tb) w = (noAns\<lparr>aInt := 1\<rparr>, w)"
| "services (SdbClose sdb) w = (noAns, w)"
| "services (CacheData key d ttl) w =
     (if wCacheUp w then (noAns, w\<lparr>wCache := (key, d) # wCache w\<rparr>)
      else (failed ''memcache: connection refused'', w))"
| "services (JsonMarshalIndent d) w =
     (noAns\<lparr>aStr := ''{ rows: '' @ itoa (TotalRows d) @ '' }''\<rparr>, w)"
| "services (ValidateDB n) w = (noAns, w)"
| "services FileClose w = (noAns, w)"
| "services TempFile w = (noAns\<lparr>aStr := ''/tmp/dbhub-upload-1''\<rparr>, w)"
| "services (TempWrite n b) w = (noAns, w)"
| "services (OsRemove n) w = (noAns, w)"
| "services (SanityCheck n) w = (noAns, w)"
| "services (Sha256 b) w = (noAns\<lparr>aStr := ''sha256 of '' @ b\<rparr>, w)"
| "services (RandomString n) w =
     (case wRandom w of [] \<Rightarrow> (noAns, w) | x # xs \<Rightarrow> (noAns\<lparr>aStr := x\<rparr>, w\<lparr>wRandom := xs\<rparr>))"
| "services (CheckMinioIDAvail u i) w =
     (noAns\<lparr>aOk := (i \<notin> set (map dMinioID (filter (\<lambda>d. dBucket d = userBucket u) (wDBs w))))\<rparr>, w)"
| "services (StoreMinioObject b i content ct) w =
     (noAns\<lparr>aInt := int (length content)\<rparr>, w\<lparr>wBlobs := wBlobs w @ [((b, i), content)]\<rparr>)"
| "services (AddDatabase u f n v sha sz p b i d rm) w =
     putDB \<lparr>dOwner = u, dFolder = f, dName = n, dVersion = v, dSha = sha, dSize = sz,
            dBucket = b, dMinioID = i, dDescrip = d, dReadme = rm\<rparr> p w"

text \<open>The highest version of an identity in a world of the model.\<close>

definition highest :: "world \<Rightarrow> ident \<Rightarrow> int" where
  "highest w idn = highestVersion (wDBs w) idn"

text \<open>
  A world to test in: alice has uploaded the private database \<^verbatim>\<open>sales.db\<close> once, bob
  has nothing; and two requests of the tests: an upload of \<^verbatim>\<open>sales.db\<close> by alice and
  the package constants.
\<close>

definition world0 :: world where
  "world0 = \<lparr>wDBs = [\<lparr>dOwner = ''alice'', dFolder = ''/'', dName = ''sales.db'', dVersion = 1,
                       dSha = ''sha256 of v1'', dSize = 2, dBucket = ''bucket-alice'',
                       dMinioID = ''aaaaaaaa.db'', dDescrip = [], dReadme = []\<rparr>],
             wPublic = [], wBlobs = [((''bucket-alice'', ''aaaaaaaa.db''), ''v1'')],
             wCache = [], wStars = [], wRandom = [''bbbbbbbb'', ''cccccccc'', ''dddddddd''],
             wLog = [], wCacheUp = True\<rparr>"

definition emptyWorld :: world where
  "emptyWorld = world0\<lparr>wDBs := [], wBlobs := []\<rparr>"

definition request0 :: request where
  "request0 = \<lparr>rODV = (''alice'', ''sales.db'', 1, None), rOD = (''alice'', ''sales.db'', None),
               rODTV = (''alice'', ''sales.db'', ''t'', 1, None), rSession = SessionUser ''alice'',
               rSort = [], rDir = [], rOffset = [], rParseFormErr = None, rPub = (False, None),
               rDescrip = ''sales figures'', rReadme = [],
               rFile = Inr \<lparr>Filename = ''sales.db'', ContentType = [''application/x-sqlite3''],
                            Content = ''v2'', ReadErr = None\<rparr>\<rparr>"

definition com0 :: com where
  "com0 = \<lparr>TableRowsCacheKey = specKey, DefaultNumDisplayRows = 10, CacheTime = 1800\<rparr>"

text \<open>
  Two uploads of \<^verbatim>\<open>sales.db\<close> by alice to the empty world. \<open>oneByOne\<close>: the second
  starts when the first has returned. \<open>overlapped\<close>: the first makes its calls up to the
  lookup of the highest version, then the second runs, then the first goes on.
\<close>

definition oneByOne :: "trace \<times> response list \<times> world" where
  "oneByOne = serial services (map (uploadDataHandler 3) [request0, request0]) emptyWorld"

definition overlapped :: "trace \<times> prog list \<times> world" where
  "overlapped =
     interleave services (replicate 6 0 @ replicate 20 1 @ replicate 20 0)
       [uploadDataHandler 3 request0, uploadDataHandler 3 request0] emptyWorld"

text \<open>
  The rows of the table of versions and the objects of the blob store of a world, and the
  upload of \<open>request0\<close> with a file of no bytes.
\<close>

definition stored :: "world \<Rightarrow> dbinfo list \<times> ((string \<times> string) \<times> bytes) list" where
  "stored w = (wDBs w, wBlobs w)"

definition emptyUpload :: request where
  "emptyUpload = request0\<lparr>rFile := Inr \<lparr>Filename = ''sales.db'',
                   ContentType = [''application/x-sqlite3''], Content = [], ReadErr = None\<rparr>\<rparr>"

text \<open>The services when the metadata store does not answer the access check.\<close>

definition accessDown :: "call \<Rightarrow> world \<Rightarrow> ans \<times> world" where
  "accessDown c w =
     (case c of
        CheckUserDBVAccess ow f n v u \<Rightarrow> (failed ''pq: connection refused'', w)
      | _ \<Rightarrow> services c w)"

text \<open>
  More worlds and requests to test in: \<open>publicWorld\<close>, where alice has made
  \<^verbatim>\<open>sales.db\<close> public; \<open>bobsWorld\<close>, where bob has a \<^verbatim>\<open>sales.db\<close> of his own as well;
  \<open>cacheDown\<close>, where the cache service does not answer; and the requests of \<open>request0\<close>
  sent by bob.
\<close>

definition publicWorld :: world where
  "publicWorld = world0\<lparr>wPublic := [(''alice'', ''/'', ''sales.db'')]\<rparr>"

definition bobsWorld :: world where
  "bobsWorld = publicWorld\<lparr>wDBs := wDBs world0 @
     [\<lparr>dOwner = ''bob'', dFolder = ''/'', dName = ''sales.db'', dVersion = 1,
       dSha = ''sha256 of b1'', dSize = 2, dBucket = ''bucket-bob'', dMinioID = ''eeeeeeee.db'',
       dDescrip = [], dReadme = []\<rparr>]\<rparr>"

definition cacheDown :: world where
  "cacheDown = world0\<lparr>wCacheUp := False\<rparr>"

definition bobsRequest :: request where
  "bobsRequest = request0\<lparr>rSession := SessionUser ''bob''\<rparr>"

text \<open>
  \<open>bobsPrivateWorld\<close>: as \<open>bobsWorld\<close>, but alice's database is private; \<open>noVersion\<close>:
  \<open>request0\<close> without a version number in the URL.
\<close>

definition bobsPrivateWorld :: world where
  "bobsPrivateWorld = bobsWorld\<lparr>wPublic := []\<rparr>"

definition noVersion :: request where
  "noVersion = request0\<lparr>rODV := (''alice'', ''sales.db'', 0, None)\<rparr>"

text \<open>The mutations and the invalidations of a trace, in order.\<close>

definition mutationsAndInvalidations :: "trace \<Rightarrow> call list" where
  "mutationsAndInvalidations t =
     filter (\<lambda>c. case c of
                AddDatabase u f n v sha sz p b i d rm \<Rightarrow> True
              | ForkDatabase so sf n v du df i \<Rightarrow> True
              | ToggleDBStar u ow f n \<Rightarrow> True
              | InvalidateCacheEntry u ow f n v \<Rightarrow> True
              | _ \<Rightarrow> False) (calls t)"

subsection \<open>General facts about runs\<close>

declare digits.simps [simp del]

lemma always_mono: "always Q p \<Longrightarrow> (\<And>t r. Q t r \<Longrightarrow> Q' t r) \<Longrightarrow> always Q' p"
proof (induction p arbitrary: Q Q')
  case (Return r)
  then show ?case by simp
next
  case (Do c k)
  show ?case
    unfolding always.simps
  proof
    fix a
    have "always (\<lambda>t. Q ((c, a) # t)) (k a)" using Do.prems(1) by simp
    then show "always (\<lambda>t. Q' ((c, a) # t)) (k a)"
      by (rule Do.IH [OF rangeI]) (rule Do.prems(2))
  qed
qed

lemma run_always: "always Q p \<Longrightarrow> Q (fst (run env p w)) (fst (snd (run env p w)))"
proof (induction p arbitrary: Q w)
  case (Return r)
  then show ?case by simp
next
  case (Do c k)
  have "always (\<lambda>t. Q ((c, fst (env c w)) # t)) (k (fst (env c w)))"
    using Do.prems by simp
  from Do.IH [OF rangeI this, of "snd (env c w)"] show ?case
    by (simp add: Let_def)
qed

lemma run_consistent: "consistent env w (fst (run env p w))"
  by (induction p arbitrary: w) (simp_all add: Let_def)

lemma run_replay: "snd (snd (run env p w)) = replay env w (fst (run env p w))"
  by (induction p arbitrary: w) (simp_all add: Let_def)

lemma replay_frame:
  "(\<And>c w. \<not> mutates c \<Longrightarrow> view (snd (env c w)) = view w) \<Longrightarrow> \<forall>c \<in> set (calls t). \<not> mutates c
     \<Longrightarrow> view (replay env w t) = view w"
  by (induction t arbitrary: w) (auto simp: calls_def)

lemma statuses [simp]:
  "StatusBadRequest = 400" "StatusUnauthorized = 401" "StatusInternalServerError = 500"
  "StatusTemporaryRedirect = 307"
  by (simp_all add: StatusBadRequest_def StatusUnauthorized_def StatusInternalServerError_def
      StatusTemporaryRedirect_def)

text \<open>The loop of random names adds only calls that a property may ignore.\<close>

lemma always_genMinioID:
  assumes neutral: "\<And>c a t r. (\<exists>n. c = RandomString n) \<or> (\<exists>u i. c = CheckMinioIDAvail u i)
                      \<Longrightarrow> Q ((c, a) # t) r = Q t r"
    and err: "always Q (ret ds (ErrorPage 500 ''Database query failure''))"
    and fuel: "Q [] OutOfFuel"
    and cont: "\<And>i. always Q (k i)"
  shows "always Q (genMinioID n u ds k)"
proof (induction n)
  case 0
  show ?case using fuel by simp
next
  case (Suc n)
  have eq1: "\<And>m a. (\<lambda>t. Q ((RandomString m, a) # t)) = Q"
    by (intro ext) (simp add: neutral)
  have eq2: "\<And>v i a. (\<lambda>t. Q ((CheckMinioIDAvail v i, a) # t)) = Q"
    by (intro ext) (simp add: neutral)
  show ?case
    using Suc err cont by (simp add: Let_def eq1 eq2)
qed

subsection \<open>The version that an upload records\<close>

lemma uploadStore_alloc:
  "v = (if 0 < h then int_add h 1 else 1) \<Longrightarrow>
   always (\<lambda>t r. allocFromRead (Some ((u, f, n), h)) t)
     (uploadStore [OsRemove x, FileClose] u f n v sha pub d rm b hdl i)"
  by (simp add: uploadStore_def Let_def split: list.splits)

lemma upload_alloc: "always (\<lambda>t r. allocFromRead None t) (uploadDataHandler fuel r)"
  by (auto simp: uploadDataHandler_def getSession_def errorPage_def Let_def
      split: session.splits prod.splits sum.splits
      intro!: always_genMinioID uploadStore_alloc)

lemma vs_nonneg: "versionStore env hi \<Longrightarrow> 0 \<le> hi w idn"
  unfolding versionStore_def by blast

lemma vs_read:
  assumes "versionStore env hi"
  shows "aInt (fst (env (HighestDBVersion ow n f u) w)) = hi w (ow, f, n)"
    and "hi (snd (env (HighestDBVersion ow n f u) w)) = hi w"
  using assms [unfolded versionStore_def, rule_format, of w "HighestDBVersion ow n f u"]
  by simp_all

lemma vs_add:
  assumes "versionStore env hi"
  shows "hi (snd (env (AddDatabase u f n v sha sz p b i d rm) w)) =
         (if aErr (fst (env (AddDatabase u f n v sha sz p b i d rm) w)) = None
          then (hi w)((u, f, n) := max (hi w (u, f, n)) v) else hi w)"
  using assms [unfolded versionStore_def, rule_format, of w "AddDatabase u f n v sha sz p b i d rm"]
  by simp

lemma vs_other:
  assumes "versionStore env hi"
    and "case c of HighestDBVersion ow n f u \<Rightarrow> False | AddDatabase u f n v sha sz p b i d rm \<Rightarrow> False
         | ForkDatabase so sf n v du df i \<Rightarrow> False | _ \<Rightarrow> True"
  shows "hi (snd (env c w)) = hi w"
  using assms(1) [unfolded versionStore_def, rule_format, of w c] assms(2)
  by (cases c) simp_all

lemma serial_versions:
  assumes vs: "versionStore env hi"
  shows "consistent env w t \<Longrightarrow> allocFromRead s t \<Longrightarrow> (\<forall>idn h. s = Some (idn, h) \<longrightarrow> h = hi w idn)
     \<Longrightarrow> (\<forall>idn. hi w idn + int (length (addedVers t)) < 2 ^ 63)
     \<Longrightarrow> consecutiveFrom (hi w) (addedVers t)"
proof (induction t arbitrary: w s)
  case Nil
  then show ?case by simp
next
  case (Cons e t)
  obtain c a where e: "e = (c, a)" by (cases e)
  have a: "a = fst (env c w)" and con: "consistent env (snd (env c w)) t"
    using Cons.prems(1) by (simp_all add: e)
  let ?other = "case c of HighestDBVersion ow n f u \<Rightarrow> False
    | AddDatabase u f n v sha sz p b i d rm \<Rightarrow> False
    | ForkDatabase so sf n v du df i \<Rightarrow> False | _ \<Rightarrow> True"
  show ?case
  proof (cases ?other)
    case True
    have hi': "hi (snd (env c w)) = hi w"
      using vs_other [OF vs True] .
    have al: "allocFromRead s t"
      using Cons.prems(2) True by (cases c) (simp_all add: e)
    have ad: "addedVers (e # t) = addedVers t"
      using True by (cases c) (simp_all add: e)
    have "\<forall>idn h. s = Some (idn, h) \<longrightarrow> h = hi (snd (env c w)) idn"
      and "\<forall>idn. hi (snd (env c w)) idn + int (length (addedVers t)) < 2 ^ 63"
      using Cons.prems(3,4) unfolding hi' ad by simp_all
    from Cons.IH [OF con al this]
    show ?thesis unfolding hi' ad .
  next
    case other: False
    show ?thesis
  proof (cases c)
    case (HighestDBVersion ow n f u)
    have "allocFromRead (Some ((ow, f, n), aInt a)) t"
      using Cons.prems(2) by (simp add: e HighestDBVersion)
    moreover have "aInt a = hi (snd (env c w)) (ow, f, n)" "hi (snd (env c w)) = hi w"
      using vs_read [OF vs] by (simp_all add: a HighestDBVersion)
    ultimately have "consecutiveFrom (hi (snd (env c w))) (addedVers t)"
      using Cons.IH [OF con, of "Some ((ow, f, n), aInt a)"] Cons.prems(4)
      by (simp add: e HighestDBVersion)
    then show ?thesis
      using vs_read [OF vs] by (simp add: e HighestDBVersion)
  next
    case (AddDatabase u f n v sha sz p b i d rm)
    from Cons.prems(2) obtain h where s: "s = Some ((u, f, n), h)"
      and v: "v = (if 0 < h then int_add h 1 else 1)" and rest: "allocFromRead None t"
      by (auto simp: e AddDatabase split: option.splits)
    have h: "h = hi w (u, f, n)" using Cons.prems(3) s by simp
    have h0: "0 \<le> h" using vs_nonneg [OF vs] h by simp
    show ?thesis
    proof (cases "aErr a = None")
      case True
      then have len: "hi w (u, f, n) + 1 < 2 ^ 63"
        using Cons.prems(4) [rule_format, of "(u, f, n)"] by (simp add: e AddDatabase)
      have v1: "v = h + 1"
        using v h0 h len by (auto simp: int_add_def)
      have hi': "hi (snd (env c w)) = (hi w)((u, f, n) := v)"
        using vs_add [OF vs, of u f n v sha sz p b i d rm w] True v1 h
        by (simp add: a AddDatabase)
      have b4: "hi w idn + int (length (addedVers t)) < 2 ^ 63 - 1" for idn
        using Cons.prems(4) [rule_format, of idn] True by (simp add: e AddDatabase)
      have "\<forall>idn. ((hi w)((u, f, n) := v)) idn + int (length (addedVers t)) < 2 ^ 63"
      proof
        fix idn
        show "((hi w)((u, f, n) := v)) idn + int (length (addedVers t)) < 2 ^ 63"
          using b4 [of idn] b4 [of "(u, f, n)"] v1 h by (cases "idn = (u, f, n)") simp_all
      qed
      then have "\<forall>idn. hi (snd (env c w)) idn + int (length (addedVers t)) < 2 ^ 63"
        unfolding hi' .
      from Cons.IH [OF con rest _ this]
      have "consecutiveFrom (hi (snd (env c w))) (addedVers t)" by simp
      then have "consecutiveFrom ((hi w)((u, f, n) := v)) (addedVers t)"
        unfolding hi' .
      then show ?thesis using True v1 h by (simp add: e AddDatabase)
    next
      case False
      then have hi': "hi (snd (env c w)) = hi w"
        using vs_add [OF vs, of u f n v sha sz p b i d rm w] by (auto simp: a AddDatabase)
      have "\<forall>idn. hi w idn + int (length (addedVers t)) < 2 ^ 63"
        using Cons.prems(4) False by (auto simp: e AddDatabase)
      then have "\<forall>idn. hi (snd (env c w)) idn + int (length (addedVers t)) < 2 ^ 63"
        unfolding hi' .
      from Cons.IH [OF con rest _ this]
      have "consecutiveFrom (hi (snd (env c w))) (addedVers t)" by simp
      then have "consecutiveFrom (hi w) (addedVers t)"
        unfolding hi' .
      then show ?thesis using False by (auto simp: e AddDatabase)
    qed
  next
    case (ForkDatabase so sf n v du df i)
    then show ?thesis using Cons.prems(2) by (simp add: e)
  qed (use other in simp_all)
  qed
qed

subsection \<open>Uploads one after another\<close>

lemma allocFromRead_weaken: "allocFromRead None t \<Longrightarrow> allocFromRead s t"
proof (induction t arbitrary: s)
  case Nil
  show ?case by simp
next
  case (Cons e t)
  obtain c a where e: "e = (c, a)" by (cases e)
  show ?case using Cons by (cases c) (simp_all add: e)
qed

lemma allocFromRead_append:
  "allocFromRead s t1 \<Longrightarrow> allocFromRead None t2 \<Longrightarrow> allocFromRead s (t1 @ t2)"
proof (induction t1 arbitrary: s)
  case Nil
  then show ?case by (simp add: allocFromRead_weaken)
next
  case (Cons e t)
  obtain c a where e: "e = (c, a)" by (cases e)
  show ?case using Cons by (cases c) (simp_all add: e)
qed

lemma consistent_append:
  "consistent env w (t1 @ t2) = (consistent env w t1 \<and> consistent env (replay env w t1) t2)"
  by (induction t1 arbitrary: w) auto

lemma replay_append: "replay env w (t1 @ t2) = replay env (replay env w t1) t2"
  by (induction t1 arbitrary: w) auto

lemma serial_consistent: "consistent env w (fst (serial env ps w))"
  by (induction ps arbitrary: w)
     (simp_all add: Let_def consistent_append run_consistent run_replay [symmetric])

lemma serial_replay: "snd (snd (serial env ps w)) = replay env w (fst (serial env ps w))"
  by (induction ps arbitrary: w) (simp_all add: Let_def replay_append run_replay [symmetric])

lemma serial_alloc:
  "(\<And>p. p \<in> set ps \<Longrightarrow> always (\<lambda>t r. allocFromRead None t) p)
     \<Longrightarrow> allocFromRead None (fst (serial env ps w))"
proof (induction ps arbitrary: w)
  case Nil
  show ?case by simp
next
  case (Cons p ps)
  have "allocFromRead None (fst (run env p w))"
    using run_always [OF Cons.prems [of p]] by simp
  moreover have "allocFromRead None (fst (serial env ps (snd (snd (run env p w)))))"
    using Cons by simp
  ultimately show ?case by (simp add: Let_def allocFromRead_append)
qed

lemma consecutive_versions:
  "consecutiveFrom m xs \<Longrightarrow>
   map snd (filter (\<lambda>x. fst x = idn) xs)
     = map (\<lambda>k. m idn + 1 + int k) [0 ..< length (filter (\<lambda>x. fst x = idn) xs)]"
proof (induction xs arbitrary: m)
  case Nil
  show ?case by simp
next
  case (Cons x xs)
  obtain j v where x: "x = (j, v)" by (cases x)
  have v: "v = m j + 1" and rest: "consecutiveFrom (m(j := v)) xs"
    using Cons.prems by (auto simp: x)
  note ih = Cons.IH [OF rest]
  show ?case
  proof (cases "j = idn")
    case True
    then show ?thesis using ih v
      by (simp add: x map_upt_Suc add.assoc del: upt_Suc)
  next
    case False
    then show ?thesis using ih by (simp add: x)
  qed
qed


subsection \<open>The in-memory services keep the versions\<close>

lemma foldr_max_nonneg: "0 \<le> foldr max xs (0::int)"
  by (induction xs) auto

lemma foldr_max_last: "foldr max xs (max v (0::int)) = max (foldr max xs 0) v"
  by (induction xs) auto

lemma highest_nonneg: "0 \<le> highestVersion dbs idn"
  by (simp add: highestVersion_def foldr_max_nonneg)

lemma putDB_highest:
  "highest (snd (putDB d p w)) =
   (if aErr (fst (putDB d p w)) = None
    then (highest w)((dOwner d, dFolder d, dName d) := max (highest w (dOwner d, dFolder d, dName d)) (dVersion d))
    else highest w)"
  using highest_nonneg [of "wDBs w" "(dOwner d, dFolder d, dName d)"]
  by (auto simp: putDB_def Let_def highest_def highestVersion_def versionsOf_def failed_def noAns_def
      foldr_max_last fun_eq_iff)

lemma services_versionStore: "versionStore services highest"
  unfolding versionStore_def
proof (intro allI conjI)
  fix c :: call and w :: world and idn
  show "0 \<le> highest w idn" by (simp add: highest_def highest_nonneg)
  show "case c of
          HighestDBVersion ow n f u \<Rightarrow>
            aInt (fst (services c w)) = highest w (ow, f, n) \<and> highest (snd (services c w)) = highest w
        | AddDatabase u f n v sha sz p b i d rm \<Rightarrow>
            highest (snd (services c w)) =
              (if aErr (fst (services c w)) = None
               then (highest w)((u, f, n) := max (highest w (u, f, n)) v) else highest w)
        | ForkDatabase so sf n v du df i \<Rightarrow> True
        | _ \<Rightarrow> highest (snd (services c w)) = highest w"
    by (cases c) (auto simp: highest_def noAns_def putDB_highest [unfolded highest_def] split: option.splits list.splits prod.splits)
qed

subsection \<open>What an upload records\<close>

lemma uploadStore_outcome:
  "always (\<lambda>t resp. ((\<exists>url st. resp = Redirect url st) \<longrightarrow> addedVers t \<noteq> [])
                    \<and> (addedVers t \<noteq> [] \<longrightarrow> (\<exists>v. addedVers t = [((u, f, n), v)])))
     (uploadStore [OsRemove x, FileClose] u f n v sha pub d rm b hdl i)"
  by (simp add: uploadStore_def Let_def split: list.splits)

lemma upload_outcome:
  "always (\<lambda>t resp. ((\<exists>url st. resp = Redirect url st) \<longrightarrow> addedVers t \<noteq> [])
                    \<and> (addedVers t \<noteq> [] \<longrightarrow>
                        (\<exists>u f v. rSession r = SessionUser u \<and> rFile r = Inr f
                           \<and> addedVers t = [((u, ''/'', Filename f), v)])))
     (uploadDataHandler fuel r)"
  by (auto simp: uploadDataHandler_def getSession_def errorPage_def Let_def
      split: session.splits prod.splits sum.splits
      intro!: always_genMinioID always_mono [OF uploadStore_outcome])


subsection \<open>An upload of no bytes\<close>

lemma upload_zero_always:
  assumes "rFile r = Inr f" "Content f = []" "ReadErr f = None" "rParseFormErr r = None"
  shows "always (\<lambda>t resp. clientError resp
            \<and> list_all (\<lambda>c. \<not> mutates c \<and> \<not> digestOrVersion c) (calls t))
           (uploadDataHandler fuel r)"
  using assms
  by (simp add: uploadDataHandler_def getSession_def errorPage_def calls_def Let_def
      mutates_def digestOrVersion_def split: session.splits prod.splits)


subsection \<open>Forks, stars and uploads: checks, invalidation, cache failures\<close>

lemma fork_same_owner_always:
  assumes "rODV r = (owner, name, ver, err)" "rSession r = SessionUser owner"
  shows "always (\<lambda>t resp. isErrorPage resp \<and> list_all (\<lambda>c. \<not> mutates c) (calls t)
            \<and> (err = None \<and> ver \<noteq> 0 \<and> accessGranted t \<longrightarrow>
                 resp = ErrorPage 400 ''Forking your own database in-place doesn't make sense''))
           (forkDBHandler r)"
  using assms
  by (simp add: forkDBHandler_def getSession_def errorPage_def calls_def mutates_def)

lemma fork_collision_always:
  assumes "rODV r = (owner, name, ver, err)" "rSession r = SessionUser user"
  shows "always (\<lambda>t resp.
            (err = None \<and> ver \<noteq> 0 \<and> user \<noteq> owner \<and> accessGranted t \<longrightarrow> firstLookup t \<noteq> None)
            \<and> (case firstLookup t of
                 None \<Rightarrow> isErrorPage resp \<and> list_all (\<lambda>c. \<not> mutates c) (calls t)
               | Some (idn, a) \<Rightarrow>
                   idn = (user, ''/'', name) \<and> (noLookupError t \<longrightarrow> aErr a = None)
                   \<and> (aInt a \<noteq> 0 \<longrightarrow> isErrorPage resp \<and> list_all (\<lambda>c. \<not> mutates c) (calls t)
                        \<and> (aErr a = None \<longrightarrow>
                             resp = ErrorPage 400 ''You already have a database of this name''))))
           (forkDBHandler r)"
  using assms
  by (simp add: forkDBHandler_def getSession_def errorPage_def calls_def mutates_def)

lemma fork_invalidated: "always (\<lambda>t resp. invalidatedAfter None t) (forkDBHandler r)"
  by (simp add: forkDBHandler_def getSession_def errorPage_def dueInvalidation_def
      split: prod.splits session.splits)

lemma star_invalidated: "always (\<lambda>t resp. invalidatedAfter None t) (starToggleHandler r)"
  by (simp add: starToggleHandler_def getSession_def errorPage_def dueInvalidation_def
      split: prod.splits session.splits)

lemma uploadStore_invalidated:
  "always (\<lambda>t resp. invalidatedAfter None t)
     (uploadStore [OsRemove x, FileClose] u f n v sha pub d rm b hdl i)"
  by (simp add: uploadStore_def Let_def dueInvalidation_def split: list.splits)

lemma dueInvalidation_none [simp]:
  "dueInvalidation SessionRemove a = None"
  "dueInvalidation (ValidateDB n) a = None"
  "dueInvalidation TempFile a = None"
  "dueInvalidation (TempWrite n b) a = None"
  "dueInvalidation (SanityCheck n) a = None"
  "dueInvalidation (Sha256 b) a = None"
  "dueInvalidation (HighestDBVersion ow n f u) a = None"
  "dueInvalidation (MinioUserBucket u) a = None"
  "dueInvalidation (RandomString k) a = None"
  "dueInvalidation (CheckMinioIDAvail u i) a = None"
  "dueInvalidation (OsRemove n) a = None"
  "dueInvalidation FileClose a = None"
  by (simp_all add: dueInvalidation_def)

lemma upload_invalidated: "always (\<lambda>t resp. invalidatedAfter None t) (uploadDataHandler fuel r)"
  by (auto simp: uploadDataHandler_def getSession_def errorPage_def Let_def
      split: session.splits prod.splits sum.splits
      intro!: always_genMinioID uploadStore_invalidated)

lemma fork_tolerant:
  "always (\<lambda>t resp. invalidationTolerated t resp \<and> cacheWriteTolerated t resp) (forkDBHandler r)"
  by (simp add: forkDBHandler_def getSession_def errorPage_def calls_def mutates_def
      split: prod.splits session.splits)

lemma star_tolerant:
  "always (\<lambda>t resp. invalidationTolerated t resp \<and> cacheWriteTolerated t resp) (starToggleHandler r)"
  by (simp add: starToggleHandler_def getSession_def errorPage_def calls_def mutates_def
      split: prod.splits session.splits)

lemma uploadStore_tolerant:
  "always (\<lambda>t resp. invalidationTolerated t resp \<and> cacheWriteTolerated t resp)
     (uploadStore [OsRemove x, FileClose] u f n v sha pub d rm b hdl i)"
  by (simp add: uploadStore_def Let_def calls_def mutates_def split: list.splits)

lemma upload_tolerant:
  "always (\<lambda>t resp. invalidationTolerated t resp \<and> cacheWriteTolerated t resp)
     (uploadDataHandler fuel r)"
  by (auto simp: uploadDataHandler_def getSession_def errorPage_def Let_def calls_def mutates_def
      split: session.splits prod.splits sum.splits
      intro!: always_genMinioID uploadStore_tolerant)

subsection \<open>The table view: access check, cache lookup, cache write\<close>

lemma tableViewRead_guarded:
  "always (\<lambda>t resp. lookupsGuarded q ok t)
     (tableViewRead cm key bucket ident name tb sortCol sortDir off maxRows)"
  by (simp add: tableViewRead_def tableViewOutput_def errorPage_def Let_def)

lemma tableViewData_guarded:
  "always (\<lambda>t resp. lookupsGuarded (owner, name, ver, viewer) ok t)
     (tableViewData cm owner name tb ver sortCol sortDir off viewer)"
  by (simp add: tableViewData_def tableViewOutput_def errorPage_def Let_def tableViewRead_guarded)

lemma tableView_guarded:
  assumes "rODTV r = (owner, name, tb, ver, err)"
    and "viewer = (case rSession r of SessionUser u \<Rightarrow> u | _ \<Rightarrow> [])"
  shows "always (\<lambda>t resp. lookupsGuarded (owner, name, ver, viewer) False t) (tableViewHandler cm r)"
  using assms
  by (simp add: tableViewHandler_def getSession_def errorPage_def Let_def tableViewData_guarded
      split: session.splits)

lemma tableViewRead_tolerant:
  "always (\<lambda>t resp. invalidationTolerated t resp \<and> cacheWriteTolerated t resp)
     (tableViewRead cm key bucket ident name tb sortCol sortDir off maxRows)"
  by (simp add: tableViewRead_def tableViewOutput_def errorPage_def Let_def)

lemma tableViewData_tolerant:
  "always (\<lambda>t resp. invalidationTolerated t resp \<and> cacheWriteTolerated t resp)
     (tableViewData cm owner name tb ver sortCol sortDir off viewer)"
  by (simp add: tableViewData_def tableViewOutput_def errorPage_def Let_def tableViewRead_tolerant)

lemma tableView_tolerant:
  "always (\<lambda>t resp. invalidationTolerated t resp \<and> cacheWriteTolerated t resp) (tableViewHandler cm r)"
  by (simp add: tableViewHandler_def getSession_def errorPage_def Let_def tableViewData_tolerant
      split: session.splits prod.splits)

subsection \<open>The version lookup of a fork, and what the in-memory services leave alone\<close>

lemma firstLookup_hi:
  assumes vs: "versionStore env hi"
  shows "consistent env w t \<Longrightarrow> firstLookup t = Some (idn, a) \<Longrightarrow> aInt a = hi w idn"
proof (induction t arbitrary: w)
  case Nil
  then show ?case by simp
next
  case (Cons e t)
  obtain c b where e: "e = (c, b)" by (cases e)
  have b: "b = fst (env c w)" and con: "consistent env (snd (env c w)) t"
    using Cons.prems(1) by (simp_all add: e)
  let ?other = "case c of HighestDBVersion ow n f u \<Rightarrow> False
    | AddDatabase u f n v sha sz p b i d rm \<Rightarrow> False
    | ForkDatabase so sf n v du df i \<Rightarrow> False | _ \<Rightarrow> True"
  show ?case
  proof (cases ?other)
    case True
    have "firstLookup t = Some (idn, a)"
      using Cons.prems(2) True by (cases c) (simp_all add: e)
    from Cons.IH [OF con this] show ?thesis
      using vs_other [OF vs True, of w] by simp
  next
    case False
    then show ?thesis
      using Cons.prems(2) vs_read(1) [OF vs, of _ _ _ _ w] by (cases c) (auto simp: e b)
  qed
qed

lemma services_frame: "\<not> mutates c \<Longrightarrow> stored (snd (services c w)) = stored w"
  by (cases c) (auto simp: mutates_def stored_def split: option.splits list.splits)


subsection \<open>Decimal numbers and the fields of a key\<close>

lemma digits_isDigit: "c \<in> set (digits n) \<Longrightarrow> isDigit c"
proof (induction n rule: digits.induct)
  case (1 n)
  show ?case
  proof (cases "n < 10")
    case True
    then show ?thesis using "1.prems" by (simp add: digits.simps [of n] isDigit_def)
  next
    case False
    have "n mod 10 < 10" by simp
    then have "isDigit (char_of (48 + n mod 10))"
      by (simp add: isDigit_def)
    then show ?thesis
      using "1.prems" "1.IH" False by (auto simp: digits.simps [of n])
  qed
qed

lemma natOfDigits_snoc: "natOfDigits (xs @ [c]) = 10 * natOfDigits xs + (of_char c - 48)"
  by (simp add: natOfDigits_def)

lemma natOfDigits_digits: "natOfDigits (digits n) = n"
proof (induction n rule: digits.induct)
  case (1 n)
  show ?case
  proof (cases "n < 10")
    case True
    then show ?thesis by (simp add: digits.simps [of n] natOfDigits_def)
  next
    case False
    have "n mod 10 < 10" by simp
    then have "(48 + n mod 10) mod 256 = 48 + n mod 10" by simp
    then show ?thesis
      using "1.IH" False by (simp add: digits.simps [of n] natOfDigits_snoc)
  qed
qed

lemma digits_inj: "digits n = digits m \<Longrightarrow> n = m"
  by (metis natOfDigits_digits)

lemma digits_nonempty: "digits n \<noteq> []"
  by (subst digits.simps) simp

lemma not_digit [simp]: "\<not> isDigit CHR ''/''" "\<not> isDigit CHR '':''" "\<not> isDigit CHR ''-''"
  by (simp_all add: isDigit_def)

lemma itoa_chars: "c \<in> set (itoa i) \<Longrightarrow> isDigit c \<or> c = CHR ''-''"
  by (auto simp: itoa_def dest: digits_isDigit split: if_splits)

lemma itoa_inj: "itoa i = itoa j \<Longrightarrow> i = j"
proof -
  assume eq: "itoa i = itoa j"
  have hd_digit: "hd (digits n) \<noteq> CHR ''-''" for n
    using digits_isDigit [of "hd (digits n)" n] digits_nonempty [of n] by auto
  show ?thesis
  proof (cases "i < 0"; cases "j < 0")
    assume "i < 0" "j < 0"
    then show ?thesis using eq digits_inj [of "nat (- i)" "nat (- j)"] by (simp add: itoa_def)
  next
    assume "i < 0" "\<not> j < 0"
    then have "CHR ''-'' # digits (nat (- i)) = digits (nat j)"
      using eq by (simp add: itoa_def)
    then have "hd (digits (nat j)) = CHR ''-''"
      by (metis list.sel(1))
    then show ?thesis using hd_digit [of "nat j"] by simp
  next
    assume "\<not> i < 0" "j < 0"
    then have "CHR ''-'' # digits (nat (- j)) = digits (nat i)"
      using eq by (simp add: itoa_def)
    then have "hd (digits (nat i)) = CHR ''-''"
      by (metis list.sel(1))
    then show ?thesis using hd_digit [of "nat i"] by simp
  next
    assume "\<not> i < 0" "\<not> j < 0"
    then show ?thesis using eq digits_inj [of "nat i" "nat j"] by (simp add: itoa_def)
  qed
qed

lemma split_at_first:
  assumes "c \<notin> set x" "c \<notin> set x'" "x @ c # y = x' @ c # y'"
  shows "x = x' \<and> y = y'"
  using assms
proof (induction x arbitrary: x')
  case Nil
  then show ?case by (cases x') auto
next
  case (Cons a x)
  then show ?case by (cases x') auto
qed

lemma split_at_last:
  assumes "c \<notin> set y" "c \<notin> set y'" "x @ c # y = x' @ c # y'"
  shows "x = x' \<and> y = y'"
proof -
  have "rev y @ c # rev x = rev y' @ c # rev x'"
    using arg_cong [OF assms(3), of rev] by simp
  then have "rev y = rev y' \<and> rev x = rev x'"
    using assms(1,2) by (intro split_at_first [of c]) simp_all
  then show ?thesis by simp
qed

lemma prefix_inj:
  assumes sd: "sortDir = [] \<or> sortDir = ''ASC'' \<or> sortDir = ''DESC''"
    and sd': "sortDir' = [] \<or> sortDir' = ''ASC'' \<or> sortDir' = ''DESC''"
    and eq: "''tablejson/'' @ sortCol @ ''/'' @ sortDir @ ''/'' @ itoa off
             = ''tablejson/'' @ sortCol' @ ''/'' @ sortDir' @ ''/'' @ itoa off'"
  shows "sortCol = sortCol' \<and> sortDir = sortDir' \<and> off = off'"
proof -
  have no1: "CHR ''/'' \<notin> set (itoa off)" "CHR ''/'' \<notin> set (itoa off')"
    using itoa_chars by fastforce+
  have no2: "CHR ''/'' \<notin> set sortDir" "CHR ''/'' \<notin> set sortDir'"
    using sd sd' by auto
  have "(sortCol @ ''/'' @ sortDir) @ CHR ''/'' # itoa off
        = (sortCol' @ ''/'' @ sortDir') @ CHR ''/'' # itoa off'"
    using eq by simp
  from split_at_last [OF no1 this]
  have 1: "sortCol @ CHR ''/'' # sortDir = sortCol' @ CHR ''/'' # sortDir'"
    and 2: "itoa off = itoa off'" by simp_all
  from split_at_last [OF no2 1] itoa_inj [OF 2] show ?thesis by simp
qed

lemma field_inj: "field s @ r = field s' @ r' \<Longrightarrow> s = s' \<and> r = r'"
proof -
  assume eq: "field s @ r = field s' @ r'"
  have no: "CHR '':'' \<notin> set (digits (length s))" "CHR '':'' \<notin> set (digits (length s'))"
    using digits_isDigit by fastforce+
  have "digits (length s) @ CHR '':'' # (s @ r) = digits (length s') @ CHR '':'' # (s' @ r')"
    using eq by (simp add: field_def)
  then have "digits (length s) = digits (length s') \<and> s @ r = s' @ r'"
    using no by (intro split_at_first [of "CHR '':''"]) simp_all
  then have "length s = length s'" and "s @ r = s' @ r'"
    using digits_inj by auto
  then show ?thesis by simp
qed

lemma specKey_collisionFree: "collisionFree specKey"
  unfolding collisionFree_def specKey_def
proof (intro allI impI)
  fix p u ow f n v tb m p' u' ow' f' n' v' tb' m'
  assume "field p @ field u @ field ow @ field f @ field n @ field (itoa v) @ field tb @ field (itoa m)
        = field p' @ field u' @ field ow' @ field f' @ field n' @ field (itoa v') @ field tb'
          @ field (itoa m')"
  from field_inj [OF this] have 1: "p = p'"
    and "field u @ field ow @ field f @ field n @ field (itoa v) @ field tb @ field (itoa m)
        = field u' @ field ow' @ field f' @ field n' @ field (itoa v') @ field tb' @ field (itoa m')"
    by simp_all
  from field_inj [OF this(2)] have 2: "u = u'"
    and "field ow @ field f @ field n @ field (itoa v) @ field tb @ field (itoa m)
        = field ow' @ field f' @ field n' @ field (itoa v') @ field tb' @ field (itoa m')"
    by simp_all
  from field_inj [OF this(2)] have 3: "ow = ow'"
    and "field f @ field n @ field (itoa v) @ field tb @ field (itoa m)
        = field f' @ field n' @ field (itoa v') @ field tb' @ field (itoa m')"
    by simp_all
  from field_inj [OF this(2)] have 4: "f = f'"
    and "field n @ field (itoa v) @ field tb @ field (itoa m)
        = field n' @ field (itoa v') @ field tb' @ field (itoa m')"
    by simp_all
  from field_inj [OF this(2)] have 5: "n = n'"
    and "field (itoa v) @ field tb @ field (itoa m) = field (itoa v') @ field tb' @ field (itoa m')"
    by simp_all
  from field_inj [OF this(2)] have 6: "itoa v = itoa v'"
    and "field tb @ field (itoa m) = field tb' @ field (itoa m')"
    by simp_all
  from field_inj [OF this(2)] have 7: "tb = tb'"
    and "field (itoa m) @ [] = field (itoa m') @ []"
    by simp_all
  from field_inj [OF this(2)] have 8: "itoa m = itoa m'"
    by simp
  show "p = p' \<and> u = u' \<and> ow = ow' \<and> f = f' \<and> n = n' \<and> v = v' \<and> tb = tb' \<and> m = m'"
    using 1 2 3 4 5 7 itoa_inj [OF 6] itoa_inj [OF 8] by simp
qed


section \<open>The claims\<close>

subsection \<open>C1: the version of an upload\<close>

text \<open>
  C1: a successful upload (the handler answers with the redirect to the database, or has
  recorded a version at all) has recorded exactly one version, for the identity (logged
  in user, \<^verbatim>\<open>/\<close>, file name), and that version is the highest version of the identity
  plus one: 1 when the identity did not exist, since the highest version is then 0. The
  services are any that keep the versions (\<open>versionStore\<close>), with the highest version
  below the largest \<^verbatim>\<open>int\<close>.
\<close>

theorem upload_assigns_next_version:
  assumes vs: "versionStore env hi"
    and run: "run env (uploadDataHandler fuel r) w = (t, resp, w')"
    and ok: "(\<exists>url status. resp = Redirect url status) \<or> addedVers t \<noteq> []"
    and bound: "\<forall>idn. hi w idn < 2 ^ 63 - 1"
  shows "\<exists>u f. rSession r = SessionUser u \<and> rFile r = Inr f
           \<and> addedVers t = [((u, ''/'', Filename f), hi w (u, ''/'', Filename f) + 1)]"
proof -
  have t: "t = fst (run env (uploadDataHandler fuel r) w)"
    and resp: "resp = fst (snd (run env (uploadDataHandler fuel r) w))"
    using run by simp_all
  from run_always [OF upload_outcome, of env fuel r w]
  obtain u f v where u: "rSession r = SessionUser u" and f: "rFile r = Inr f"
    and added: "addedVers t = [((u, ''/'', Filename f), v)]"
    using ok by (auto simp: t [symmetric] resp [symmetric])
  have "allocFromRead None t"
    using run_always [OF upload_alloc, of env fuel r w] by (simp add: t)
  moreover have "consistent env w t"
    unfolding t by (rule run_consistent)
  moreover have "\<forall>idn. hi w idn + int (length (addedVers t)) < 2 ^ 63"
    using bound by (simp add: added)
  ultimately have "consecutiveFrom (hi w) (addedVers t)"
    using serial_versions [OF vs, of w t None] by simp
  then have "v = hi w (u, ''/'', Filename f) + 1"
    by (simp add: added)
  then show ?thesis using u f added by simp
qed

theorem upload_assigns_next_version_witness:
  "versionStore services highest
   \<and> highest world0 (''alice'', ''/'', ''sales.db'') = 1
   \<and> fst (snd (run services (uploadDataHandler 3 request0) world0))
       = Redirect ''/alice/sales.db'' 307
   \<and> addedVers (fst (run services (uploadDataHandler 3 request0) world0))
       = [((''alice'', ''/'', ''sales.db''), 2)]
   \<and> highest emptyWorld (''alice'', ''/'', ''sales.db'') = 0
   \<and> fst (snd (run services (uploadDataHandler 3 request0) emptyWorld))
       = Redirect ''/alice/sales.db'' 307
   \<and> addedVers (fst (run services (uploadDataHandler 3 request0) emptyWorld))
       = [((''alice'', ''/'', ''sales.db''), 1)]"
proof -
  let ?idn = "(''alice'', ''/'', ''sales.db'')"
  let ?R1 = "run services (uploadDataHandler 3 request0) world0"
  let ?R0 = "run services (uploadDataHandler 3 request0) emptyWorld"
  have r1: "fst (snd ?R1) = Redirect ''/alice/sales.db'' 307"
    and r0: "fst (snd ?R0) = Redirect ''/alice/sales.db'' 307"
    by code_simp+
  have h1: "highest world0 idn = (if idn = ?idn then 1 else 0)" for idn
    by (auto simp: highest_def world0_def highestVersion_def versionsOf_def)
  have h0: "highest emptyWorld idn = 0" for idn
    by (simp add: highest_def emptyWorld_def highestVersion_def versionsOf_def)
  have s: "rSession request0 = SessionUser ''alice''"
    and f: "rFile request0 = Inr \<lparr>Filename = ''sales.db'', ContentType = [''application/x-sqlite3''],
                            Content = ''v2'', ReadErr = None\<rparr>"
    by (simp_all add: request0_def)
  have run1: "?R1 = (fst ?R1, fst (snd ?R1), snd (snd ?R1))"
    and run0: "?R0 = (fst ?R0, fst (snd ?R0), snd (snd ?R0))"
    by simp_all
  have ok1: "(\<exists>url status. fst (snd ?R1) = Redirect url status) \<or> addedVers (fst ?R1) \<noteq> []"
    and ok0: "(\<exists>url status. fst (snd ?R0) = Redirect url status) \<or> addedVers (fst ?R0) \<noteq> []"
    using r1 r0 by simp_all
  have b1: "\<forall>idn. highest world0 idn < 2 ^ 63 - 1"
    and b0: "\<forall>idn. highest emptyWorld idn < 2 ^ 63 - 1"
    by (simp_all add: h1 h0)
  have "addedVers (fst ?R1) = [(?idn, 2)]"
    using upload_assigns_next_version [OF services_versionStore run1 ok1 b1]
    by (simp add: h1 s f)
  moreover
  have "addedVers (fst ?R0) = [(?idn, 1)]"
    using upload_assigns_next_version [OF services_versionStore run0 ok0 b0]
    by (simp add: h0 s f)
  ultimately show ?thesis
    using services_versionStore r1 r0 by (simp add: h1 h0)
qed

subsection \<open>C2: the versions of uploads to one identity\<close>

text \<open>
  C2, as stated, fails: the handler looks up the highest version (line 1521) and records
  the new one (line 1557) in two separate calls, with nothing that holds the identity in
  between. When a second upload of the same identity runs between the two calls of the
  first, both ask to record version 1; the second is recorded, the first is refused by the
  table and answered with a server error, and the identity ends with the single version 1,
  not with the versions 1 and 2.
\<close>

theorem overlapped_uploads_counterexample:
  "requestedVers (fst overlapped)
     = [((''alice'', ''/'', ''sales.db''), 1), ((''alice'', ''/'', ''sales.db''), 1)]
   \<and> map returned (fst (snd overlapped))
     = [Some (ErrorPage 500 ''Adding database details to PostgreSQL failed''),
        Some (Redirect ''/alice/sales.db'' 307)]
   \<and> map dVersion (wDBs (snd (snd overlapped))) = [1]"
  by code_simp

text \<open>
  C2, as amended: when uploads run one after another, each starting after the last has
  returned, against services that keep the versions (\<open>versionStore\<close>), the versions
  recorded for an identity are, in order, its highest version before the first upload plus
  1, plus 2, and so on: no gap and no duplicate, and 1, 2, ... for an identity that did
  not exist. (No lookup comes near the largest \<^verbatim>\<open>int\<close>.)
\<close>

theorem serial_uploads_consecutive:
  assumes vs: "versionStore env hi"
    and run: "serial env (map (uploadDataHandler fuel) rs) w = (t, resps, w')"
    and bound: "\<forall>idn. hi w idn + int (length (addedVers t)) < 2 ^ 63"
  shows "versionsAssigned idn t
         = map (\<lambda>k. hi w idn + 1 + int k) [0 ..< length (versionsAssigned idn t)]"
proof -
  have t: "t = fst (serial env (map (uploadDataHandler fuel) rs) w)"
    using run by simp
  have "allocFromRead None t"
    unfolding t by (rule serial_alloc) (auto simp: upload_alloc)
  moreover have "consistent env w t"
    unfolding t by (rule serial_consistent)
  ultimately have "consecutiveFrom (hi w) (addedVers t)"
    using serial_versions [OF vs, of w t None] bound by simp
  then show ?thesis
    unfolding versionsAssigned_def using consecutive_versions [of "hi w" "addedVers t" idn]
    by simp
qed

theorem serial_uploads_consecutive_witness:
  "versionStore services highest
   \<and> length (addedVers (fst oneByOne)) = 2
   \<and> versionsAssigned (''alice'', ''/'', ''sales.db'') (fst oneByOne) = [1, 2]"
proof -
  have added: "length (addedVers (fst oneByOne)) = 2"
    by code_simp
  have len: "length (versionsAssigned (''alice'', ''/'', ''sales.db'') (fst oneByOne)) = 2"
    by code_simp
  have hi0: "highest emptyWorld idn = 0" for idn
    by (simp add: highest_def emptyWorld_def highestVersion_def versionsOf_def)
  have bound: "\<forall>idn. highest emptyWorld idn + int (length (addedVers (fst oneByOne))) < 2 ^ 63"
    by (simp add: hi0 added)
  have run: "serial services (map (uploadDataHandler 3) [request0, request0]) emptyWorld
             = (fst oneByOne, fst (snd oneByOne), snd (snd oneByOne))"
    by (simp add: oneByOne_def)
  from serial_uploads_consecutive [OF services_versionStore run bound,
      of "(''alice'', ''/'', ''sales.db'')"]
  have "versionsAssigned (''alice'', ''/'', ''sales.db'') (fst oneByOne) = [1, 2]"
    by (simp add: len hi0 upt_conv_Cons)
  then show ?thesis using services_versionStore added by simp
qed


subsection \<open>C3: who may read\<close>

text \<open>
  C3: \<open>canRead\<close> is true whenever the viewer is the owner, whatever the public flag of the
  identity; for a viewer who is not the owner, the anonymous viewer (the empty user name)
  included, it is true exactly when the public flag of the identity is true.
\<close>

theorem canRead_rule:
  "canRead public owner owner folder name version
   \<and> (viewer \<noteq> owner \<longrightarrow>
        canRead public viewer owner folder name version = public (owner, folder, name))"
  by (simp add: canRead_def)

theorem canRead_rule_witness:
  "canRead (publicIn world0) ''alice'' ''alice'' ''/'' ''sales.db'' 1
   \<and> \<not> canRead (publicIn world0) ''bob'' ''alice'' ''/'' ''sales.db'' 1
   \<and> \<not> canRead (publicIn world0) [] ''alice'' ''/'' ''sales.db'' 1
   \<and> canRead (publicIn publicWorld) ''bob'' ''alice'' ''/'' ''sales.db'' 1
   \<and> canRead (publicIn publicWorld) [] ''alice'' ''/'' ''sales.db'' 1"
  using canRead_rule [of "publicIn world0" "''alice''" "''/''" "''sales.db''" 1 "''bob''"]
    canRead_rule [of "publicIn world0" "''alice''" "''/''" "''sales.db''" 1 "[]"]
    canRead_rule [of "publicIn publicWorld" "''alice''" "''/''" "''sales.db''" 1 "''bob''"]
    canRead_rule [of "publicIn publicWorld" "''alice''" "''/''" "''sales.db''" 1 "[]"]
  by (simp add: world0_def publicWorld_def publicIn_def)

subsection \<open>C4: the access check comes before the cache lookup\<close>

text \<open>
  C4: in every run of the table view, no lookup in the cache (\<^verbatim>\<open>com.GetCachedData\<close>,
  line 1282) is made unless the access check of lines 1251-1264 (\<^verbatim>\<open>com.MinioBucketID\<close>
  for the requested owner, name and version and for the viewer of the session) has been
  made before it and has returned an object without error.
\<close>

theorem tableView_authorizes_before_cache:
  assumes odtv: "rODTV r = (owner, name, tb, ver, err)"
    and viewer: "viewer = (case rSession r of SessionUser u \<Rightarrow> u | _ \<Rightarrow> [])"
    and run: "run env (tableViewHandler cm r) w = (t, resp, w')"
  shows "lookupsGuarded (owner, name, ver, viewer) False t"
proof -
  have "t = fst (run env (tableViewHandler cm r) w)"
    using run by simp
  then show ?thesis
    using run_always [OF tableView_guarded [OF odtv viewer], of env cm w] by simp
qed


theorem tableView_authorizes_before_cache_witness:
  "lookupsGuarded (''alice'', ''sales.db'', 1, ''alice'') False
     (fst (run services (tableViewHandler com0 request0) world0))
   \<and> take 3 (calls (fst (run services (tableViewHandler com0 request0) world0)))
     = [MinioBucketID ''alice'' ''sales.db'' 1 ''alice'', PrefUserMaxRows ''alice'',
        GetCachedData (dataCacheKey com0 [] [] 0 ''alice'' ''alice'' ''sales.db'' 1 ''t'' 25)]
   \<and> calls (fst (run services (tableViewHandler com0 bobsRequest) world0))
     = [MinioBucketID ''alice'' ''sales.db'' 1 ''bob'',
        LogPrintf (''Table data handler: Requested database not found. Owner: '' @ sq
          @ ''alice'' @ sq @ '' Database: '' @ sq @ ''sales.db'' @ sq)]"
proof -
  let ?R = "run services (tableViewHandler com0 request0) world0"
  have odtv: "rODTV request0 = (''alice'', ''sales.db'', ''t'', 1, None)"
    and viewer: "''alice'' = (case rSession request0 of SessionUser u \<Rightarrow> u | _ \<Rightarrow> [])"
    by (simp_all add: request0_def)
  have "?R = (fst ?R, fst (snd ?R), snd (snd ?R))"
    by simp
  from tableView_authorizes_before_cache [OF odtv viewer this]
  have "lookupsGuarded (''alice'', ''sales.db'', 1, ''alice'') False (fst ?R)" .
  moreover have "take 3 (calls (fst ?R))
     = [MinioBucketID ''alice'' ''sales.db'' 1 ''alice'', PrefUserMaxRows ''alice'',
        GetCachedData (dataCacheKey com0 [] [] 0 ''alice'' ''alice'' ''sales.db'' 1 ''t'' 25)]"
    by code_simp
  moreover have "calls (fst (run services (tableViewHandler com0 bobsRequest) world0))
     = [MinioBucketID ''alice'' ''sales.db'' 1 ''bob'',
        LogPrintf (''Table data handler: Requested database not found. Owner: '' @ sq
          @ ''alice'' @ sq @ '' Database: '' @ sq @ ''sales.db'' @ sq)]"
    by code_simp
  ultimately show ?thesis by simp
qed


subsection \<open>C5: the key of a cached table view\<close>

text \<open>
  C5: the key that the table view builds (lines 1277-1278) is a function of the sort
  column, the sort direction, the row offset, the viewer, the owner, the name, the
  version, the table and the row cap (the folder is always \<^verbatim>\<open>/\<close>): the same inputs give
  the same key, and, for a key function of package \<^verbatim>\<open>common\<close> that has no collisions and
  for the sort directions that the handler admits (lines 1232-1237), two keys are equal
  only if every input is the same; so a change of any one input, the viewer included,
  changes the key.
\<close>

theorem dataCacheKey_injective:
  assumes key: "collisionFree (TableRowsCacheKey cm)"
    and sd: "sortDir = [] \<or> sortDir = ''ASC'' \<or> sortDir = ''DESC''"
    and sd': "sortDir' = [] \<or> sortDir' = ''ASC'' \<or> sortDir' = ''DESC''"
  shows "dataCacheKey cm sortCol sortDir rowOffset viewer owner name ver tb maxRows
           = dataCacheKey cm sortCol' sortDir' rowOffset' viewer' owner' name' ver' tb' maxRows'
         \<longleftrightarrow> sortCol = sortCol' \<and> sortDir = sortDir' \<and> rowOffset = rowOffset' \<and> viewer = viewer'
             \<and> owner = owner' \<and> name = name' \<and> ver = ver' \<and> tb = tb' \<and> maxRows = maxRows'"
proof
  assume "dataCacheKey cm sortCol sortDir rowOffset viewer owner name ver tb maxRows
           = dataCacheKey cm sortCol' sortDir' rowOffset' viewer' owner' name' ver' tb' maxRows'"
  then have eq: "''tablejson/'' @ sortCol @ ''/'' @ sortDir @ ''/'' @ itoa rowOffset
             = ''tablejson/'' @ sortCol' @ ''/'' @ sortDir' @ ''/'' @ itoa rowOffset'"
    and rest: "viewer = viewer' \<and> owner = owner' \<and> name = name' \<and> ver = ver' \<and> tb = tb'
           \<and> maxRows = maxRows'"
    using key [unfolded collisionFree_def, rule_format,
        of "''tablejson/'' @ sortCol @ ''/'' @ sortDir @ ''/'' @ itoa rowOffset" viewer owner
           "''/''" name ver tb maxRows
           "''tablejson/'' @ sortCol' @ ''/'' @ sortDir' @ ''/'' @ itoa rowOffset'" viewer' owner'
           "''/''" name' ver' tb' maxRows']
    by (simp_all add: dataCacheKey_def)
  show "sortCol = sortCol' \<and> sortDir = sortDir' \<and> rowOffset = rowOffset' \<and> viewer = viewer'
             \<and> owner = owner' \<and> name = name' \<and> ver = ver' \<and> tb = tb' \<and> maxRows = maxRows'"
    using prefix_inj [OF sd sd' eq] rest by simp
next
  assume "sortCol = sortCol' \<and> sortDir = sortDir' \<and> rowOffset = rowOffset' \<and> viewer = viewer'
             \<and> owner = owner' \<and> name = name' \<and> ver = ver' \<and> tb = tb' \<and> maxRows = maxRows'"
  then show "dataCacheKey cm sortCol sortDir rowOffset viewer owner name ver tb maxRows
           = dataCacheKey cm sortCol' sortDir' rowOffset' viewer' owner' name' ver' tb' maxRows'"
    by simp
qed


theorem dataCacheKey_injective_witness:
  "collisionFree (TableRowsCacheKey com0)
   \<and> dataCacheKey com0 [] [] 0 ''alice'' ''alice'' ''sales.db'' 1 ''t'' 10
       = ''13:tablejson///05:alice5:alice1:/8:sales.db1:11:t2:10''
   \<and> dataCacheKey com0 [] [] 0 ''alice'' ''alice'' ''sales.db'' 1 ''t'' 10
       \<noteq> dataCacheKey com0 [] [] 0 ''bob'' ''alice'' ''sales.db'' 1 ''t'' 10
   \<and> dataCacheKey com0 [] [] 0 ''alice'' ''alice'' ''sales.db'' 1 ''t'' 10
       \<noteq> dataCacheKey com0 [] ''ASC'' 0 ''alice'' ''alice'' ''sales.db'' 1 ''t'' 10"
proof -
  have key: "collisionFree (TableRowsCacheKey com0)"
    by (simp add: com0_def specKey_collisionFree)
  have "dataCacheKey com0 [] [] 0 ''alice'' ''alice'' ''sales.db'' 1 ''t'' 10
       = ''13:tablejson///05:alice5:alice1:/8:sales.db1:11:t2:10''"
    by code_simp
  then show ?thesis
    using key
      dataCacheKey_injective [OF key, of "[]" "[]" "[]" 0 "''alice''" "''alice''" "''sales.db''"
        1 "''t''" 10 "[]" 0 "''bob''" "''alice''" "''sales.db''" 1 "''t''" 10]
      dataCacheKey_injective [OF key, of "[]" "''ASC''" "[]" 0 "''alice''" "''alice''" "''sales.db''"
        1 "''t''" 10 "[]" 0 "''alice''" "''alice''" "''sales.db''" 1 "''t''" 10]
    by simp
qed

subsection \<open>C6: a mutation invalidates the cache\<close>

text \<open>
  C6: in every run of the upload, fork and star handlers, a mutation that succeeded
  (\<^verbatim>\<open>com.AddDatabase\<close>, \<^verbatim>\<open>com.ForkDatabase\<close>, \<^verbatim>\<open>com.ToggleDBStar\<close> without error) is
  followed, before the handler returns and with nothing but a log line in between, by
  \<^verbatim>\<open>com.InvalidateCacheEntry\<close> with version 0 for the identity whose views changed: the
  uploaded database, the starred database, and for a fork the database that was forked
  (the source, as line 556 passes it).
\<close>

theorem mutation_invalidates_cache:
  assumes p: "p = uploadDataHandler fuel r \<or> p = forkDBHandler r \<or> p = starToggleHandler r"
    and run: "run env p w = (t, resp, w')"
  shows "invalidatedAfter None t"
proof -
  have "always (\<lambda>t resp. invalidatedAfter None t) p"
    using p upload_invalidated fork_invalidated star_invalidated by auto
  from run_always [OF this, of env w] show ?thesis
    using run by simp
qed


theorem mutation_invalidates_cache_witness:
  "mutationsAndInvalidations (fst (run services (uploadDataHandler 3 request0) world0))
     = [AddDatabase ''alice'' ''/'' ''sales.db'' 2 ''sha256 of v2'' 2 False ''bucket-alice''
          ''bbbbbbbb.db'' ''sales figures'' [],
        InvalidateCacheEntry ''alice'' ''alice'' ''/'' ''sales.db'' 0]
   \<and> mutationsAndInvalidations (fst (run services (forkDBHandler bobsRequest) publicWorld))
     = [ForkDatabase ''alice'' ''/'' ''sales.db'' 1 ''bob'' ''/'' ''bbbbbbbb.db'',
        InvalidateCacheEntry ''bob'' ''alice'' ''/'' ''sales.db'' 0]
   \<and> mutationsAndInvalidations (fst (run services (starToggleHandler bobsRequest) world0))
     = [ToggleDBStar ''bob'' ''alice'' ''/'' ''sales.db'',
        InvalidateCacheEntry ''bob'' ''alice'' ''/'' ''sales.db'' 0]
   \<and> invalidatedAfter None (fst (run services (uploadDataHandler 3 request0) world0))
   \<and> invalidatedAfter None (fst (run services (forkDBHandler bobsRequest) publicWorld))
   \<and> invalidatedAfter None (fst (run services (starToggleHandler bobsRequest) world0))"
proof -
  let ?U = "run services (uploadDataHandler 3 request0) world0"
  let ?F = "run services (forkDBHandler bobsRequest) publicWorld"
  let ?S = "run services (starToggleHandler bobsRequest) world0"
  have "?U = (fst ?U, fst (snd ?U), snd (snd ?U))"
    by simp
  from mutation_invalidates_cache [OF _ this, of 3 request0]
  have u: "invalidatedAfter None (fst ?U)" by simp
  have "?F = (fst ?F, fst (snd ?F), snd (snd ?F))"
    by simp
  from mutation_invalidates_cache [OF _ this, of 3 bobsRequest]
  have f: "invalidatedAfter None (fst ?F)" by simp
  have "?S = (fst ?S, fst (snd ?S), snd (snd ?S))"
    by simp
  from mutation_invalidates_cache [OF _ this, of 3 bobsRequest]
  have s: "invalidatedAfter None (fst ?S)" by simp
  have "mutationsAndInvalidations (fst ?U)
     = [AddDatabase ''alice'' ''/'' ''sales.db'' 2 ''sha256 of v2'' 2 False ''bucket-alice''
          ''bbbbbbbb.db'' ''sales figures'' [],
        InvalidateCacheEntry ''alice'' ''alice'' ''/'' ''sales.db'' 0]"
    by code_simp
  moreover have "mutationsAndInvalidations (fst ?F)
     = [ForkDatabase ''alice'' ''/'' ''sales.db'' 1 ''bob'' ''/'' ''bbbbbbbb.db'',
        InvalidateCacheEntry ''bob'' ''alice'' ''/'' ''sales.db'' 0]"
    by code_simp
  moreover have "mutationsAndInvalidations (fst ?S)
     = [ToggleDBStar ''bob'' ''alice'' ''/'' ''sales.db'',
        InvalidateCacheEntry ''bob'' ''alice'' ''/'' ''sales.db'' 0]"
    by code_simp
  ultimately show ?thesis using u f s by simp
qed

subsection \<open>C7: failures of the cache service\<close>

text \<open>
  C7, as stated, fails for the invalidation: when \<^verbatim>\<open>com.InvalidateCacheEntry\<close> returns
  an error, the handlers log it and return at once (lines 557-561, 995-999, 1569-1573),
  before they have written their response. The same upload that is answered with the
  redirect to the new database when the cache service is up is answered with nothing
  when it is down, although the version was recorded.
\<close>

theorem invalidation_failure_counterexample:
  "fst (snd (run services (uploadDataHandler 3 request0) world0)) = Redirect ''/alice/sales.db'' 307
   \<and> fst (snd (run services (uploadDataHandler 3 request0) cacheDown)) = NoResponse
   \<and> addedVers (fst (run services (uploadDataHandler 3 request0) cacheDown))
       = [((''alice'', ''/'', ''sales.db''), 2)]"
  by code_simp


text \<open>
  C7, as amended: a cache write that fails after a table view was computed is logged and
  the view is served as after a write that succeeded; a cache invalidation that fails
  after a mutation is logged, no call after it writes to the stores (the mutation is not
  rolled back) and no error page is sent, but the handler returns there, without having
  written a response: no redirect after an upload or a fork, no star count after a star
  toggle.
\<close>

theorem cache_failures_tolerated:
  assumes p: "p = tableViewHandler cm r \<or> p = uploadDataHandler fuel r \<or> p = forkDBHandler r
              \<or> p = starToggleHandler r"
    and run: "run env p w = (t, resp, w')"
  shows "cacheWriteTolerated t resp \<and> invalidationTolerated t resp"
proof -
  have "always (\<lambda>t resp. invalidationTolerated t resp \<and> cacheWriteTolerated t resp) p"
    using p tableView_tolerant upload_tolerant fork_tolerant star_tolerant by auto
  from run_always [OF this, of env w] show ?thesis
    using run by simp
qed


theorem cache_failures_tolerated_witness:
  "fst (snd (run services (tableViewHandler com0 request0) cacheDown)) = Body ''{ rows: 1 }''
   \<and> fst (snd (run services (tableViewHandler com0 request0) world0)) = Body ''{ rows: 1 }''
   \<and> cacheWriteTolerated (fst (run services (tableViewHandler com0 request0) cacheDown))
        (Body ''{ rows: 1 }'')
   \<and> invalidationTolerated (fst (run services (uploadDataHandler 3 request0) cacheDown)) NoResponse
   \<and> stored (snd (snd (run services (uploadDataHandler 3 request0) cacheDown)))
       = stored (snd (snd (run services (uploadDataHandler 3 request0) world0)))"
proof -
  let ?T = "run services (tableViewHandler com0 request0) cacheDown"
  let ?U = "run services (uploadDataHandler 3 request0) cacheDown"
  have t: "fst (snd ?T) = Body ''{ rows: 1 }''"
    and t': "fst (snd (run services (tableViewHandler com0 request0) world0)) = Body ''{ rows: 1 }''"
    and u: "fst (snd ?U) = NoResponse"
    and s: "stored (snd (snd ?U)) = stored (snd (snd (run services (uploadDataHandler 3 request0) world0)))"
    by code_simp+
  have "?T = (fst ?T, fst (snd ?T), snd (snd ?T))"
    by simp
  from cache_failures_tolerated [OF _ this, of com0 request0]
  have 1: "cacheWriteTolerated (fst ?T) (Body ''{ rows: 1 }'')" by (simp add: t)
  have "?U = (fst ?U, fst (snd ?U), snd (snd ?U))"
    by simp
  from cache_failures_tolerated [OF _ this, of _ request0 3]
  have 2: "invalidationTolerated (fst ?U) NoResponse" by (simp add: u)
  show ?thesis using 1 2 t t' s by simp
qed

subsection \<open>C8: forking one's own database\<close>

text \<open>
  C8, as stated, fails: the check that source and destination owner differ (line 510)
  comes after the check of the version number (line 472) and after the access check
  (lines 499-507), so a fork of one's own database is answered with the error of an
  earlier check when there is one. Here the access check cannot reach the metadata
  store, and alice's fork of her own database is answered with a server error, not with
  a client error; and her fork request without a version number is answered with the
  error of line 473.
\<close>

theorem fork_same_owner_counterexample:
  "rODV request0 = (''alice'', ''sales.db'', 1, None)
   \<and> rSession request0 = SessionUser ''alice''
   \<and> fst (snd (run accessDown (forkDBHandler request0) world0))
       = ErrorPage 500 ''pq: connection refused''
   \<and> \<not> clientError (fst (snd (run accessDown (forkDBHandler request0) world0)))
   \<and> rODV noVersion = (''alice'', ''sales.db'', 0, None)
   \<and> rSession noVersion = SessionUser ''alice''
   \<and> fst (snd (run services (forkDBHandler noVersion) world0))
       = ErrorPage 400 ''No database version number given''"
  by code_simp


text \<open>
  C8, as amended: a fork request whose destination owner (the logged in user) is the
  owner of the source is answered with an error page, and the handler makes no call that
  copies a blob or records a version, so whatever only those calls change (\<open>stores\<close>)
  is left as it was. The error is the client error "Forking your own database in-place
  doesn't make sense" when the request parsed, names a version, and the access check
  allowed the user.
\<close>

theorem fork_same_owner:
  assumes odv: "rODV r = (owner, name, ver, err)" and sess: "rSession r = SessionUser owner"
    and run: "run env (forkDBHandler r) w = (t, resp, w')"
    and frame: "\<And>c w. \<not> mutates c \<Longrightarrow> stores (snd (env c w)) = stores w"
  shows "isErrorPage resp \<and> list_all (\<lambda>c. \<not> mutates c) (calls t) \<and> stores w' = stores w
         \<and> (err = None \<and> ver \<noteq> 0 \<and> accessGranted t \<longrightarrow>
              resp = ErrorPage 400 ''Forking your own database in-place doesn't make sense'')"
proof -
  have t: "t = fst (run env (forkDBHandler r) w)"
    and resp: "resp = fst (snd (run env (forkDBHandler r) w))"
    and w': "w' = snd (snd (run env (forkDBHandler r) w))"
    using run by simp_all
  have 1: "isErrorPage resp \<and> list_all (\<lambda>c. \<not> mutates c) (calls t)
         \<and> (err = None \<and> ver \<noteq> 0 \<and> accessGranted t \<longrightarrow>
              resp = ErrorPage 400 ''Forking your own database in-place doesn't make sense'')"
    unfolding t resp by (rule run_always [OF fork_same_owner_always [OF odv sess]])
  then have "\<forall>c \<in> set (calls t). \<not> mutates c"
    by (simp add: list_all_iff)
  then have "stores (replay env w t) = stores w"
    by (intro replay_frame [where view = stores] frame)
  then show ?thesis
    using 1 by (simp add: w' run_replay t)
qed


theorem fork_same_owner_witness:
  "fst (snd (run services (forkDBHandler request0) world0))
     = ErrorPage 400 ''Forking your own database in-place doesn't make sense''
   \<and> stored (snd (snd (run services (forkDBHandler request0) world0))) = stored world0"
proof -
  let ?R = "run services (forkDBHandler request0) world0"
  have odv: "rODV request0 = (''alice'', ''sales.db'', 1, None)"
    and sess: "rSession request0 = SessionUser ''alice''"
    by (simp_all add: request0_def)
  have acc: "accessGranted (fst ?R)"
    by code_simp
  have "?R = (fst ?R, fst (snd ?R), snd (snd ?R))"
    by simp
  from fork_same_owner [where stores = stored, OF odv sess this services_frame]
  show ?thesis using acc by simp
qed


subsection \<open>C9: forking onto a name that is taken\<close>

text \<open>
  C9, as stated, fails: the lookup of the destination owner's database of that name (line
  516) comes after the access check and after the check that the owners differ, so a fork
  onto a taken name is answered with the error of an earlier check when there is one.
  Here alice forks her own \<^verbatim>\<open>sales.db\<close>: she has a database of that name, and the
  answer is the error of line 511, not the one of line 523; and bob, who has a
  \<^verbatim>\<open>sales.db\<close> of his own, forks alice's private one and is answered with the error of
  line 505.
\<close>

theorem fork_name_collision_counterexample:
  "highest world0 (''alice'', ''/'', ''sales.db'') = 1
   \<and> rODV request0 = (''alice'', ''sales.db'', 1, None)
   \<and> rSession request0 = SessionUser ''alice''
   \<and> fst (snd (run services (forkDBHandler request0) world0))
       = ErrorPage 400 ''Forking your own database in-place doesn't make sense''
   \<and> highest bobsPrivateWorld (''bob'', ''/'', ''sales.db'') = 1
   \<and> rODV bobsRequest = (''alice'', ''sales.db'', 1, None)
   \<and> rSession bobsRequest = SessionUser ''bob''
   \<and> fst (snd (run services (forkDBHandler bobsRequest) bobsPrivateWorld))
       = ErrorPage 400 ''You don't have access to the requested database version''"
  by code_simp

text \<open>
  C9, as amended: when the destination owner (the logged in user) has a database of the
  requested name, whatever its versions, the fork is answered with an error page and the
  handler makes no call that copies a blob or records a version; so a fork succeeds only
  when the destination owner has no database of that name. The error is the client error
  "You already have a database of this name" when the request parsed, names a version,
  the owners differ, the access check allowed the user and the version lookup returned
  no error. The services are any that keep the versions (\<open>versionStore\<close>).
\<close>

theorem fork_name_collision:
  assumes vs: "versionStore env hi"
    and odv: "rODV r = (owner, name, ver, err)" and sess: "rSession r = SessionUser user"
    and taken: "hi w (user, ''/'', name) \<noteq> 0"
    and run: "run env (forkDBHandler r) w = (t, resp, w')"
    and frame: "\<And>c w. \<not> mutates c \<Longrightarrow> stores (snd (env c w)) = stores w"
  shows "isErrorPage resp \<and> list_all (\<lambda>c. \<not> mutates c) (calls t) \<and> stores w' = stores w
         \<and> (err = None \<and> ver \<noteq> 0 \<and> user \<noteq> owner \<and> accessGranted t \<and> noLookupError t \<longrightarrow>
              resp = ErrorPage 400 ''You already have a database of this name'')"
proof -
  have t: "t = fst (run env (forkDBHandler r) w)"
    and resp: "resp = fst (snd (run env (forkDBHandler r) w))"
    and w': "w' = snd (snd (run env (forkDBHandler r) w))"
    using run by simp_all
  have con: "consistent env w t"
    unfolding t by (rule run_consistent)
  have shape: "(err = None \<and> ver \<noteq> 0 \<and> user \<noteq> owner \<and> accessGranted t \<longrightarrow> firstLookup t \<noteq> None)
            \<and> (case firstLookup t of
                 None \<Rightarrow> isErrorPage resp \<and> list_all (\<lambda>c. \<not> mutates c) (calls t)
               | Some (idn, a) \<Rightarrow>
                   idn = (user, ''/'', name) \<and> (noLookupError t \<longrightarrow> aErr a = None)
                   \<and> (aInt a \<noteq> 0 \<longrightarrow> isErrorPage resp \<and> list_all (\<lambda>c. \<not> mutates c) (calls t)
                        \<and> (aErr a = None \<longrightarrow>
                             resp = ErrorPage 400 ''You already have a database of this name'')))"
    unfolding t resp by (rule run_always [OF fork_collision_always [OF odv sess]])
  have 1: "isErrorPage resp \<and> list_all (\<lambda>c. \<not> mutates c) (calls t)
         \<and> (err = None \<and> ver \<noteq> 0 \<and> user \<noteq> owner \<and> accessGranted t \<and> noLookupError t \<longrightarrow>
              resp = ErrorPage 400 ''You already have a database of this name'')"
  proof (cases "firstLookup t")
    case None
    then show ?thesis using shape by auto
  next
    case (Some x)
    obtain idn a where x: "x = (idn, a)" by (cases x)
    have "aInt a = hi w idn"
      using firstLookup_hi [OF vs con] Some x by simp
    moreover have "idn = (user, ''/'', name)"
      using shape Some x by simp
    ultimately have "aInt a \<noteq> 0" using taken by simp
    then show ?thesis using shape Some x by auto
  qed
  then have "\<forall>c \<in> set (calls t). \<not> mutates c"
    by (simp add: list_all_iff)
  then have "stores (replay env w t) = stores w"
    by (intro replay_frame [where view = stores] frame)
  then show ?thesis
    using 1 by (simp add: w' run_replay t)
qed


theorem fork_name_collision_witness:
  "highest bobsWorld (''bob'', ''/'', ''sales.db'') = 1
   \<and> fst (snd (run services (forkDBHandler bobsRequest) bobsWorld))
       = ErrorPage 400 ''You already have a database of this name''
   \<and> stored (snd (snd (run services (forkDBHandler bobsRequest) bobsWorld))) = stored bobsWorld"
proof -
  let ?R = "run services (forkDBHandler bobsRequest) bobsWorld"
  have odv: "rODV bobsRequest = (''alice'', ''sales.db'', 1, None)"
    and sess: "rSession bobsRequest = SessionUser ''bob''"
    by (simp_all add: request0_def bobsRequest_def)
  have hi: "highest bobsWorld (''bob'', ''/'', ''sales.db'') = 1"
    by code_simp
  have acc: "accessGranted (fst ?R)" and lk: "noLookupError (fst ?R)"
    by code_simp+
  have "?R = (fst ?R, fst (snd ?R), snd (snd ?R))"
    by simp
  from fork_name_collision [where stores = stored, OF services_versionStore odv sess _ this
      services_frame]
  show ?thesis using acc lk hi by simp
qed


subsection \<open>C10: an upload of no bytes\<close>

text \<open>
  C10: an upload request whose database file has no bytes (the form parsed, the file is
  there and was read without error) is answered with an error page of a 4xx status; the
  handler has then computed no digest, looked up no version, and made no call that writes
  to the blob store or to the table of versions, so whatever part of the world only those
  calls change (\<open>stores\<close>) is left as it was.
\<close>

theorem upload_zero_bytes_rejected:
  assumes upl: "rFile r = Inr f" and zero: "length (Content f) = 0"
    and rd: "ReadErr f = None" and form: "rParseFormErr r = None"
    and run: "run env (uploadDataHandler fuel r) w = (t, resp, w')"
    and frame: "\<And>c w. \<not> mutates c \<Longrightarrow> stores (snd (env c w)) = stores w"
  shows "clientError resp
         \<and> list_all (\<lambda>c. \<not> mutates c \<and> \<not> digestOrVersion c) (calls t)
         \<and> stores w' = stores w"
proof -
  have t: "t = fst (run env (uploadDataHandler fuel r) w)"
    and resp: "resp = fst (snd (run env (uploadDataHandler fuel r) w))"
    and w': "w' = snd (snd (run env (uploadDataHandler fuel r) w))"
    using run by simp_all
  have 1: "clientError resp \<and> list_all (\<lambda>c. \<not> mutates c \<and> \<not> digestOrVersion c) (calls t)"
    unfolding t resp using upl zero rd form
    by (intro run_always [OF upload_zero_always]) simp_all
  then have "\<forall>c \<in> set (calls t). \<not> mutates c"
    by (simp add: list_all_iff)
  then have "stores (replay env w t) = stores w"
    by (intro replay_frame [where view = stores] frame)
  then show ?thesis
    using 1 by (simp add: w' run_replay t)
qed

theorem upload_zero_bytes_rejected_witness:
  "fst (snd (run services (uploadDataHandler 3 emptyUpload) world0))
     = ErrorPage 400 ''Database file is 0 length?''
   \<and> stored (snd (snd (run services (uploadDataHandler 3 emptyUpload) world0))) = stored world0"
proof -
  let ?f = "\<lparr>Filename = ''sales.db'', ContentType = [''application/x-sqlite3''], Content = [],
             ReadErr = None\<rparr>"
  let ?R = "run services (uploadDataHandler 3 emptyUpload) world0"
  have frame: "stored (snd (services c w)) = stored w" if "\<not> mutates c" for c w
    using that
    by (cases c) (auto simp: mutates_def stored_def split: option.splits list.splits)
  have resp: "fst (snd ?R) = ErrorPage 400 ''Database file is 0 length?''"
    by code_simp
  have "run services (uploadDataHandler 3 emptyUpload) world0 = (fst ?R, fst (snd ?R), snd (snd ?R))"
    by simp
  from upload_zero_bytes_rejected [where stores = stored, OF _ _ _ _ this frame, of ?f]
  have "stored (snd (snd ?R)) = stored world0"
    by (simp add: request0_def emptyUpload_def)
  then show ?thesis using resp by simp
qed

end
